theory Spec2Isabelle
  imports Complex_Main "HOL-Library.Sublist" "HOL-Library.Multiset"
begin

section \<open>Durak: the rules engine of \<^verbatim>\<open>python_version\<close>\<close>

text \<open>
  The embedding follows \<^verbatim>\<open>tools.py\<close>, \<^verbatim>\<open>players.py\<close> and \<^verbatim>\<open>main.py\<close>.

  \<^item> \<^verbatim>\<open>Card\<close> and \<^verbatim>\<open>Player\<close> objects are shared by reference between the lists of a game
    (hands, deck, table, \<^verbatim>\<open>card_collection\<close>, \<^verbatim>\<open>attackers\<close>, ...), so they live in an explicit
    store: a map from addresses to objects, with an allocation counter for each kind.
  \<^item> Python lists are fields holding list values. Every list of the program has one owner:
    the code never stores one list object in two places (\<^verbatim>\<open>make_deepcopy\<close> and
    \<^verbatim>\<open>make_copy\<close> build every list with a comprehension or \<^verbatim>\<open>.copy()\<close>).
  \<^item> A Python \<^verbatim>\<open>set\<close> of (suit, value) pairs is a duplicate-free list. The order of that
    list stands for the iteration order of the set, which Python leaves open; the theorems
    speak about membership only.
  \<^item> Every \<^verbatim>\<open>raise\<close>, failed \<^verbatim>\<open>assert\<close>, failed index or unpacking is a value \<open>Inl e\<close>.
  \<^item> \<^verbatim>\<open>random\<close> is an explicit argument: the number drawn.
  \<^item> The weights of \<^verbatim>\<open>allowed_plays\<close> are Python floats; they are modelled by exact
    rationals. Console output is not modelled, except that formatting a card
    (\<^verbatim>\<open>Card.__str__\<close>) can raise, which is kept.
\<close>

datatype error =
    AssertionError | IndexError | KeyError | TypeError | ValueError
  | ZeroDivisionError | AttributeError | NotImplementedError | BaseException string

definition ebind :: "error + 'a \<Rightarrow> ('a \<Rightarrow> error + 'b) \<Rightarrow> error + 'b" where
  "ebind m f = (case m of Inl e \<Rightarrow> Inl e | Inr x \<Rightarrow> f x)"

subsection \<open>tools.py: cards\<close>

text \<open>A (suit, value) tuple. Either component can be Python's \<^verbatim>\<open>None\<close>.\<close>

type_synonym ident = "int option \<times> int option"

record Card =
  suit :: "int option"
  val :: "int option"
  trump_suit :: "int option"
  is_public :: bool
  is_private :: bool
  is_unknown :: bool

text \<open>\<^verbatim>\<open>Card()\<close>: the class attributes.\<close>

definition new_Card :: Card where
  "new_Card = \<lparr>suit = None, val = None, trump_suit = None,
     is_public = False, is_private = False, is_unknown = True\<rparr>"

definition ident_of :: "Card \<Rightarrow> ident" where
  "ident_of c = (suit c, val c)"

definition reset :: "Card \<Rightarrow> Card" where
  "reset c = c\<lparr>suit := None, val := None, trump_suit := None,
     is_public := False, is_private := False, is_unknown := True\<rparr>"

definition make_copy_card :: "Card \<Rightarrow> Card" where
  "make_copy_card c = new_Card\<lparr>suit := suit c, val := val c, trump_suit := trump_suit c,
     is_public := is_public c, is_private := is_private c, is_unknown := is_unknown c\<rparr>"

definition is_trump :: "Card \<Rightarrow> bool" where
  "is_trump c \<longleftrightarrow> suit c = trump_suit c"

definition from_suit_value :: "Card \<Rightarrow> int option \<Rightarrow> int option \<Rightarrow> error + Card" where
  "from_suit_value c s v =
     (if \<not> is_unknown c then Inl AssertionError
      else Inr (c\<lparr>suit := s, val := v, is_unknown := False\<rparr>))"

text \<open>
  \<^verbatim>\<open>Card.__str__\<close>, as far as it can raise: an unknown card prints as \<^verbatim>\<open>???\<close>; otherwise the
  suit must not be \<^verbatim>\<open>None\<close> (assert) and suit and value index the strings of 4 and 9
  glyphs (Python accepts the negative indices too).
\<close>

definition str_index :: "nat \<Rightarrow> int option \<Rightarrow> error + unit" where
  "str_index n i =
     (case i of
        None \<Rightarrow> Inl TypeError
      | Some k \<Rightarrow> if - int n \<le> k \<and> k < int n then Inr () else Inl IndexError)"

definition str_card :: "Card \<Rightarrow> error + unit" where
  "str_card c =
     (if is_unknown c then Inr ()
      else if suit c = None then Inl AssertionError
      else ebind (str_index 4 (suit c)) (\<lambda>_. str_index 9 (val c)))"

subsection \<open>tools.py: random choice\<close>

datatype kind =
    Attack | Defend | Take | ThrowCards | PassAttack | Reflect | ReflectTrump
  | Other string

text \<open>
  The second component of an action tuple: \<^verbatim>\<open>None\<close>, one (suit, value) pair, or a tuple
  whose elements are pairs or \<^verbatim>\<open>None\<close> (the pass of the throw phase is \<^verbatim>\<open>(None,)\<close>).
\<close>

datatype payload = NoCard | OneCard ident | Cards "ident option list"

text \<open>An action tuple \<^verbatim>\<open>(kind, payload)\<close> or \<^verbatim>\<open>(kind, payload, weight)\<close>.\<close>

type_synonym action = "kind \<times> payload \<times> rat option"

text \<open>
  \<^verbatim>\<open>random.choice(seq)\<close> and \<^verbatim>\<open>random.choices(seq)[0]\<close> both index \<^verbatim>\<open>seq\<close> at a position
  drawn uniformly below \<^verbatim>\<open>len(seq)\<close>, and raise \<^verbatim>\<open>IndexError\<close> on an empty sequence. The
  draw is the argument \<open>r\<close>.
\<close>

definition random_choice :: "'a list \<Rightarrow> nat \<Rightarrow> error + 'a" where
  "random_choice xs r = (if xs = [] then Inl IndexError else Inr (xs ! (r mod length xs)))"

definition random_choices :: "'a list \<Rightarrow> nat \<Rightarrow> error + 'a list" where
  "random_choices xs r = (if xs = [] then Inl IndexError else Inr [xs ! (r mod length xs)])"

text \<open>\<^verbatim>\<open>choose_random(lst, weights)\<close>: the weights are received and not passed on.\<close>

definition choose_random :: "'a list \<Rightarrow> 'w option \<Rightarrow> nat \<Rightarrow> error + 'a" where
  "choose_random lst weights r =
     (case weights of
        None \<Rightarrow> random_choice lst r
      | Some w \<Rightarrow> ebind (random_choices lst r) (\<lambda>ys. Inr (ys ! 0)))"

definition choose_random_action :: "action list \<Rightarrow> nat \<Rightarrow> error + action" where
  "choose_random_action poss_actions r =
     (case poss_actions of
        [] \<Rightarrow> Inl IndexError
      | a # _ \<Rightarrow>
          if snd (snd a) \<noteq> None then
            if \<exists>x \<in> set poss_actions. snd (snd x) = None then Inl IndexError
            else choose_random (map (\<lambda>x. (fst x, fst (snd x), None)) poss_actions)
                   (Some (map (\<lambda>x. the (snd (snd x))) poss_actions)) r
          else choose_random poss_actions (None :: rat list option) r)"

text \<open>
  The probability that \<^verbatim>\<open>choose_random_action\<close> returns \<open>a\<close>: the share of the equally
  likely draws \<open>r < len(poss_actions)\<close> that select it.
\<close>

definition prob_action :: "action list \<Rightarrow> action \<Rightarrow> rat" where
  "prob_action poss_actions a =
     of_nat (length (filter (\<lambda>r. choose_random_action poss_actions r = Inr a)
                       [0 ..< length poss_actions]))
     / of_nat (length poss_actions)"

subsection \<open>The store\<close>

record Player =
  name :: string
  hand :: "nat list"

record heap =
  cardH :: "nat \<Rightarrow> Card"
  playerH :: "nat \<Rightarrow> Player"
  next_card :: nat
  next_player :: nat

definition hand_of :: "heap \<Rightarrow> nat \<Rightarrow> nat list" where
  "hand_of h p = hand (playerH h p)"

definition set_hand :: "heap \<Rightarrow> nat \<Rightarrow> nat list \<Rightarrow> heap" where
  "set_hand h p cs = h\<lparr>playerH := (playerH h)(p := (playerH h p)\<lparr>hand := cs\<rparr>)\<rparr>"

definition upd_card :: "heap \<Rightarrow> nat \<Rightarrow> (Card \<Rightarrow> Card) \<Rightarrow> heap" where
  "upd_card h c f = h\<lparr>cardH := (cardH h)(c := f (cardH h c))\<rparr>"

definition unknown_at :: "heap \<Rightarrow> nat \<Rightarrow> bool" where
  "unknown_at h c = is_unknown (cardH h c)"

definition ident_at :: "heap \<Rightarrow> nat \<Rightarrow> ident" where
  "ident_at h c = ident_of (cardH h c)"

text \<open>Allocation of new objects at the next free addresses.\<close>

fun alloc_cards :: "heap \<Rightarrow> Card list \<Rightarrow> heap \<times> nat list" where
  "alloc_cards h [] = (h, [])"
| "alloc_cards h (c # cs) =
     (let a = next_card h;
          (h', as) = alloc_cards (h\<lparr>cardH := (cardH h)(a := c), next_card := Suc a\<rparr>) cs
      in (h', a # as))"

fun alloc_players :: "heap \<Rightarrow> Player list \<Rightarrow> heap \<times> nat list" where
  "alloc_players h [] = (h, [])"
| "alloc_players h (p # ps) =
     (let a = next_player h;
          (h', as) = alloc_players (h\<lparr>playerH := (playerH h)(a := p), next_player := Suc a\<rparr>) ps
      in (h', a # as))"

subsection \<open>players.py\<close>

text \<open>\<^verbatim>\<open>Player(name)\<close>; the callers of \<^verbatim>\<open>GameTree\<close> construct the players this way.\<close>

definition new_Player :: "string \<Rightarrow> Player" where
  "new_Player n = \<lparr>name = n, hand = []\<rparr>"

text \<open>
  \<^verbatim>\<open>fill_hand\<close>: the loop runs \<^verbatim>\<open>to_draw = 6 - len(hand)\<close> times (not at all when that is not
  positive, which the truncating subtraction of \<open>nat\<close> gives) and stops at an empty deck.
\<close>

fun draw :: "nat \<Rightarrow> nat list \<Rightarrow> nat list \<Rightarrow> nat list \<times> nat list" where
  "draw 0 hnd dk = (hnd, dk)"
| "draw (Suc n) hnd [] = (hnd, [])"
| "draw (Suc n) hnd (c # dk) = draw n (hnd @ [c]) dk"

definition fill_hand :: "heap \<Rightarrow> nat \<Rightarrow> nat list \<Rightarrow> heap \<times> nat list" where
  "fill_hand h p dk =
     (let (hnd, dk') = draw (6 - length (hand_of h p)) (hand_of h p) dk
      in (set_hand h p hnd, dk'))"

text \<open>\<^verbatim>\<open>for p in ps: deck = p.fill_hand(deck)\<close>\<close>

fun fill_hands :: "heap \<Rightarrow> nat list \<Rightarrow> nat list \<Rightarrow> heap \<times> nat list" where
  "fill_hands h [] dk = (h, dk)"
| "fill_hands h (p # ps) dk = (let (h', dk') = fill_hand h p dk in fill_hands h' ps dk')"

definition known_hand :: "heap \<Rightarrow> nat list \<Rightarrow> ident list" where
  "known_hand h hnd = map (ident_at h) (filter (\<lambda>c. \<not> unknown_at h c) hnd)"

fun possible_card_plays_loop :: "heap \<Rightarrow> ident list \<Rightarrow> nat list \<Rightarrow> ident list \<Rightarrow> ident list" where
  "possible_card_plays_loop h non_public [] poss_plays = poss_plays"
| "possible_card_plays_loop h non_public (c # cs) poss_plays =
     possible_card_plays_loop h non_public cs
       (if unknown_at h c then List.union non_public poss_plays
        else List.insert (ident_at h c) poss_plays)"

definition possible_card_plays :: "heap \<Rightarrow> nat \<Rightarrow> ident list \<Rightarrow> ident list" where
  "possible_card_plays h p non_public =
     possible_card_plays_loop h non_public (hand_of h p) []"

fun first_index :: "('a \<Rightarrow> bool) \<Rightarrow> 'a list \<Rightarrow> nat option" where
  "first_index P [] = None"
| "first_index P (x # xs) = (if P x then Some 0 else map_option Suc (first_index P xs))"

text \<open>\<^verbatim>\<open>xs.pop(i)\<close> for an index in range: the list without position \<open>i\<close>.\<close>

definition pop_at :: "nat \<Rightarrow> 'a list \<Rightarrow> 'a list" where
  "pop_at i xs = take i xs @ drop (Suc i) xs"

subsection \<open>main.py: the game object\<close>

record GameTree =
  players :: "nat list"
  computer_shuffle :: bool
  print_info :: bool
  deck :: "nat list"
  all_cards :: "ident list"
  card_collection :: "nat list"
  history :: "action list"
  attackers :: "nat list"
  defender :: "nat option"
  current_attacker :: nat
  player_to_play :: "nat option"
  draw_order :: "nat list"
  attacker_to_start_throwing :: "nat option"
  last_played_attacker :: "nat option"
  reflected_trumps :: "ident list"
  current_action :: kind
  pairs_finished :: "(nat \<times> nat) list"
  cards_to_defend :: "nat list"
  is_end_state :: bool
  loser :: "nat option"

text \<open>\<^verbatim>\<open>{(suit, value) for suit in range(4) for value in range(9)}\<close>\<close>

definition the_all_cards :: "ident list" where
  "the_all_cards = concat (map (\<lambda>s. map (\<lambda>v. (Some (int s), Some (int v))) [0 ..< 9]) [0 ..< 4])"


definition get_non_public_cards :: "heap \<Rightarrow> GameTree \<Rightarrow> ident list" where
  "get_non_public_cards h g =
     (let remove = map (ident_at h) (filter (\<lambda>c. is_public (cardH h c)) (card_collection g))
      in filter (\<lambda>i. i \<notin> set remove) (all_cards g))"

subsection \<open>players.py: discarding and throwing\<close>

text \<open>The test that the loop of \<^verbatim>\<open>discard_card\<close> makes on one card of the hand.\<close>

definition fits :: "heap \<Rightarrow> ident list \<Rightarrow> nat list \<Rightarrow> ident \<Rightarrow> nat \<Rightarrow> bool" where
  "fits h non_public hnd sv c =
     (if unknown_at h c then sv \<in> set non_public \<and> sv \<notin> set (known_hand h hnd)
      else suit (cardH h c) = fst sv \<and> val (cardH h c) = snd sv)"

definition discard_card :: "heap \<Rightarrow> GameTree \<Rightarrow> nat \<Rightarrow> ident \<Rightarrow> bool \<Rightarrow> error + heap \<times> nat" where
  "discard_card h g p sv remove =
     (let hnd = hand_of h p in
      case first_index (fits h (get_non_public_cards h g) hnd sv) hnd of
        None \<Rightarrow> Inl (BaseException ''Card not possible to discard'')
      | Some idx \<Rightarrow>
          let c = hnd ! idx;
              h1 = (if unknown_at h c then upd_card h c (\<lambda>x. x\<lparr>suit := fst sv, val := snd sv\<rparr>)
                    else h);
              h2 = (if remove then set_hand h1 p (pop_at idx hnd) else h1);
              h3 = upd_card h2 c
                     (\<lambda>x. x\<lparr>is_unknown := False, is_private := False, is_public := True\<rparr>)
          in Inr (h3, c))"

text \<open>The greedy loop of \<^verbatim>\<open>can_throw\<close> over \<^verbatim>\<open>poss2\<close>, a list of sets.\<close>

fun greedy :: "ident list \<Rightarrow> ident list list \<Rightarrow> bool" where
  "greedy [] poss2 = True"
| "greedy (c # cs) poss2 =
     (case first_index (\<lambda>p. c \<in> set p) poss2 of
        None \<Rightarrow> False
      | Some idx \<Rightarrow> greedy cs (pop_at idx poss2))"

definition can_throw :: "heap \<Rightarrow> nat \<Rightarrow> ident list \<Rightarrow> ident list \<Rightarrow> bool" where
  "can_throw h p fallback_identities cards =
     (let hnd = hand_of h p;
          fallback = length (filter (unknown_at h) hnd);
          poss = map (\<lambda>c. [ident_at h c])
                   (filter (\<lambda>c. \<not> unknown_at h c \<and> ident_at h c \<in> set cards) hnd)
      in if length poss + fallback < length cards then False
         else greedy cards (poss @ replicate (min fallback (length cards)) fallback_identities))"



text \<open>
  \<^verbatim>\<open>determinize_hand\<close>: the known cards of the hand become public; then each unknown card
  takes a pair popped from \<^verbatim>\<open>list(get_non_public_cards())\<close> at a random position
  (\<^verbatim>\<open>random.randint(0, len - 1)\<close> raises \<^verbatim>\<open>ValueError\<close> on an empty list).
\<close>

fun determinize_loop ::
  "(nat \<Rightarrow> nat) \<Rightarrow> nat \<Rightarrow> nat list \<Rightarrow> ident list \<Rightarrow> heap \<Rightarrow> error + heap" where
  "determinize_loop rnd i [] unknown h = Inr h"
| "determinize_loop rnd i (c # cs) unknown h =
     (if unknown = [] then Inl ValueError
      else let k = rnd i mod length unknown; sv = unknown ! k in
        ebind (from_suit_value (cardH h c) (fst sv) (snd sv)) (\<lambda>c'.
        determinize_loop rnd (Suc i) cs (pop_at k unknown)
          (upd_card h c (\<lambda>_. c'\<lparr>is_public := True\<rparr>))))"

definition determinize_hand :: "heap \<Rightarrow> GameTree \<Rightarrow> nat \<Rightarrow> (nat \<Rightarrow> nat) \<Rightarrow> error + heap" where
  "determinize_hand h g p rnd =
     (let hnd = hand_of h p;
          unknown_cards = filter (unknown_at h) hnd;
          h1 = fold (\<lambda>c h'. if unknown_at h' c then h'
                     else upd_card h' c (\<lambda>x. x\<lparr>is_private := False, is_public := True\<rparr>)) hnd h
      in if length unknown_cards > 0
         then determinize_loop rnd 0 unknown_cards (get_non_public_cards h1 g) h1
         else Inr h1)"

text \<open>
  The preparation of a search in \<^verbatim>\<open>choose_action\<close> of the three search players, on the copy of
  the state: \<^verbatim>\<open>for card in copied.card_collection: if card.is_private and card not in
  self.hand: card.reset()\<close>. Python's \<^verbatim>\<open>in\<close> on a list asks for the same object or an equal one,
  and \<^verbatim>\<open>Card.__eq__\<close> compares suit and value.
\<close>

definition card_in :: "heap \<Rightarrow> nat \<Rightarrow> nat list \<Rightarrow> bool" where
  "card_in h c hnd \<longleftrightarrow> list_ex (\<lambda>c'. c' = c \<or> ident_at h c' = ident_at h c) hnd"

definition reset_private :: "heap \<Rightarrow> GameTree \<Rightarrow> nat list \<Rightarrow> heap" where
  "reset_private h g own =
     fold (\<lambda>c h'. if is_private (cardH h' c) \<and> \<not> card_in h' c own
                  then upd_card h' c reset else h')
       (card_collection g) h"

subsection \<open>main.py: opening a trick\<close>

text \<open>
  \<^verbatim>\<open>new_trick(main_attacker)\<close>. An unknown name reaches \<^verbatim>\<open>raise 'Player name not known error'\<close>,
  which is a \<^verbatim>\<open>TypeError\<close> in Python 3 (a string is not an exception).
\<close>

definition living :: "heap \<Rightarrow> GameTree \<Rightarrow> nat \<Rightarrow> bool" where
  "living h g p \<longleftrightarrow> length (hand_of h p) > 0 \<or> length (deck g) > 0"

definition new_trick :: "heap \<Rightarrow> GameTree \<Rightarrow> string \<Rightarrow> error + GameTree" where
  "new_trick h g main_attacker =
     (let people = length (players g) in
      case first_index (\<lambda>p. name (playerH h p) = main_attacker) (players g) of
        None \<Rightarrow> Inl TypeError
      | Some idx \<Rightarrow>
          let atts = filter (living h g)
                       (map (\<lambda>i. players g ! (i mod people)) [idx ..< idx + people]);
              g1 = (if length atts = 0 then
                      g\<lparr>attackers := atts, is_end_state := True, loser := defender g\<rparr>
                    else if length atts = 1 then
                      g\<lparr>attackers := atts, is_end_state := True, loser := Some (atts ! 0)\<rparr>
                    else
                      g\<lparr>attackers := pop_at 1 atts,
                        defender := Some (atts ! 1),
                        current_attacker := 0,
                        player_to_play := Some (atts ! 0),
                        draw_order := pop_at 1 atts @ [atts ! 1],
                        attacker_to_start_throwing := None,
                        last_played_attacker := None,
                        reflected_trumps := []\<rparr>)
          in Inr (g1\<lparr>current_action := Attack, pairs_finished := [], cards_to_defend := []\<rparr>))"

subsection \<open>main.py: the legal actions\<close>

text \<open>\<^verbatim>\<open>{card.value for pair in self.pairs_finished for card in pair}\<close>\<close>

definition pair_values :: "heap \<Rightarrow> (nat \<times> nat) list \<Rightarrow> int option list" where
  "pair_values h prs = concat (map (\<lambda>(a, b). [val (cardH h a), val (cardH h b)]) prs)"

definition allowed_attack :: "heap \<Rightarrow> GameTree \<Rightarrow> error + action list" where
  "allowed_attack h g =
     (if \<not> current_attacker g < length (attackers g) then Inl IndexError
      else if Some (attackers g ! current_attacker g) \<noteq> player_to_play g then Inl AssertionError
      else
        let player = attackers g ! current_attacker g;
            poss_plays = possible_card_plays h player (get_non_public_cards h g);
            pass = (if length (pairs_finished g) > 0 then [(PassAttack, NoCard, None)] else []);
            poss_plays' = (if length (pairs_finished g) > 0
                           then filter (\<lambda>c. snd c \<in> set (pair_values h (pairs_finished g))) poss_plays
                           else poss_plays)
        in case defender g of
             None \<Rightarrow> Inl AttributeError
           | Some d \<Rightarrow>
               Inr (pass @ (if length (hand_of h d) > 0
                            then map (\<lambda>sv. (Attack, OneCard sv, None)) poss_plays' else [])))"

text \<open>\<^verbatim>\<open>value > to_defend.value\<close>: comparing with \<^verbatim>\<open>None\<close> raises.\<close>

definition py_gt :: "int option \<Rightarrow> int option \<Rightarrow> error + bool" where
  "py_gt a b = (case a of None \<Rightarrow> Inl TypeError
                | Some x \<Rightarrow> (case b of None \<Rightarrow> Inl TypeError | Some y \<Rightarrow> Inr (x > y)))"

definition reflect_options :: "heap \<Rightarrow> GameTree \<Rightarrow> Card \<Rightarrow> ident \<Rightarrow> error + (kind \<times> ident) list" where
  "reflect_options h g to_defend sv =
     (if length (pairs_finished g) = 0 then
        if length (attackers g) = 0 then Inl ZeroDivisionError
        else
          let new_defender = attackers g ! (1 mod length (attackers g));
              max_new_piles = int (length (hand_of h new_defender))
                              - int (length (cards_to_defend g))
          in Inr ((if max_new_piles \<ge> 1 \<and> snd sv = val to_defend then [(Reflect, sv)] else [])
                  @ (if max_new_piles \<ge> 0 \<and> snd sv = val to_defend
                        \<and> fst sv = trump_suit to_defend \<and> sv \<notin> set (reflected_trumps g)
                     then [(ReflectTrump, sv)] else []))
      else Inr [])"

definition defend_options :: "Card \<Rightarrow> ident \<Rightarrow> error + (kind \<times> ident) list" where
  "defend_options to_defend sv =
     (let by_trump = (if fst sv = trump_suit to_defend \<and> \<not> is_trump to_defend
                      then [(Defend, sv)] else [])
      in if fst sv = suit to_defend
         then ebind (py_gt (snd sv) (val to_defend))
                (\<lambda>higher. Inr (by_trump @ (if higher then [(Defend, sv)] else [])))
         else Inr by_trump)"

text \<open>The loop over the identities of one hand card; it fills \<^verbatim>\<open>reflect\<close> and \<^verbatim>\<open>defend\<close>.\<close>

fun identities_loop ::
  "heap \<Rightarrow> GameTree \<Rightarrow> Card \<Rightarrow> ident list \<Rightarrow> (kind \<times> ident) list \<times> (kind \<times> ident) list
   \<Rightarrow> error + (kind \<times> ident) list \<times> (kind \<times> ident) list" where
  "identities_loop h g to_defend [] acc = Inr acc"
| "identities_loop h g to_defend (sv # svs) acc =
     ebind (reflect_options h g to_defend sv) (\<lambda>r.
     ebind (defend_options to_defend sv) (\<lambda>d.
     identities_loop h g to_defend svs (fst acc @ r, snd acc @ d)))"

text \<open>\<^verbatim>\<open>play_options[action] += w\<close> on a \<^verbatim>\<open>defaultdict(int)\<close>, which keeps insertion order.\<close>

fun add_weight :: "'k \<Rightarrow> rat \<Rightarrow> ('k \<times> rat) list \<Rightarrow> ('k \<times> rat) list" where
  "add_weight k w [] = [(k, 0 + w)]"
| "add_weight k w ((k', w') # rest) =
     (if k = k' then (k', w' + w) # rest else (k', w') # add_weight k w rest)"

definition add_options :: "'k list \<Rightarrow> ('k \<times> rat) list \<Rightarrow> ('k \<times> rat) list" where
  "add_options acts play_options =
     fold (\<lambda>a. add_weight a (1 / of_nat (length acts))) acts play_options"

definition identities :: "heap \<Rightarrow> GameTree \<Rightarrow> nat list \<Rightarrow> nat \<Rightarrow> ident list" where
  "identities h g hnd c =
     (if unknown_at h c
      then filter (\<lambda>i. i \<notin> set (known_hand h hnd)) (get_non_public_cards h g)
      else [ident_at h c])"

fun defend_loop ::
  "heap \<Rightarrow> GameTree \<Rightarrow> Card \<Rightarrow> nat list \<Rightarrow> nat list \<Rightarrow> ((kind \<times> ident) \<times> rat) list
   \<Rightarrow> error + ((kind \<times> ident) \<times> rat) list" where
  "defend_loop h g to_defend hnd [] play_options = Inr play_options"
| "defend_loop h g to_defend hnd (c # cs) play_options =
     ebind (identities_loop h g to_defend (identities h g hnd c) ([], [])) (\<lambda>(reflect, defend).
     defend_loop h g to_defend hnd cs (add_options reflect (add_options defend play_options)))"

definition allowed_defend :: "heap \<Rightarrow> GameTree \<Rightarrow> error + action list" where
  "allowed_defend h g =
     (case cards_to_defend g of
        [] \<Rightarrow> Inl IndexError
      | c0 # _ \<Rightarrow>
          (case player_to_play g of
             None \<Rightarrow> Inl AttributeError
           | Some player \<Rightarrow>
               let hnd = hand_of h player in
               ebind (defend_loop h g (cardH h c0) hnd hnd []) (\<lambda>play_options.
               Inr (map (\<lambda>((k, sv), w). (k, OneCard sv, Some w)) play_options
                    @ [(Take, NoCard, Some (1 / 2))]))))"

text \<open>\<^verbatim>\<open>itertools.combinations(xs, r)\<close>: the subsequences of length \<open>r\<close>, in its order.\<close>

fun combinations :: "'a list \<Rightarrow> nat \<Rightarrow> 'a list list" where
  "combinations xs 0 = [[]]"
| "combinations [] (Suc r) = []"
| "combinations (x # xs) (Suc r) = map ((#) x) (combinations xs r) @ combinations xs (Suc r)"

definition table_values :: "heap \<Rightarrow> GameTree \<Rightarrow> int option list" where
  "table_values h g =
     pair_values h (pairs_finished g) @ map (\<lambda>c. val (cardH h c)) (cards_to_defend g)"

definition poss_throws :: "heap \<Rightarrow> GameTree \<Rightarrow> nat \<Rightarrow> ident list" where
  "poss_throws h g player =
     filter (\<lambda>c. snd c \<in> set (table_values h g))
       (possible_card_plays h player (get_non_public_cards h g))"

definition max_throws :: "heap \<Rightarrow> GameTree \<Rightarrow> nat \<Rightarrow> nat \<Rightarrow> int" where
  "max_throws h g player d =
     (let available_throws = int (length (hand_of h d)) - int (length (cards_to_defend g))
      in min available_throws
           (min (int (length (poss_throws h g player))) (int (length (hand_of h player)))))"

definition allowed_throw :: "heap \<Rightarrow> GameTree \<Rightarrow> error + action list" where
  "allowed_throw h g =
     (case player_to_play g of
        None \<Rightarrow> Inl AttributeError
      | Some player \<Rightarrow>
          (case defender g of
             None \<Rightarrow> Inl AttributeError
           | Some d \<Rightarrow>
               let fallback_identities = get_non_public_cards h g in
               Inr ((ThrowCards, Cards [None], None)
                    # concat (map (\<lambda>throw.
                         map (\<lambda>option. (ThrowCards, Cards (map Some option), None))
                           (filter (can_throw h player fallback_identities)
                              (combinations (poss_throws h g player) throw)))
                         [1 ..< Suc (nat (max_throws h g player d))]))))"

definition allowed_plays :: "heap \<Rightarrow> GameTree \<Rightarrow> error + action list" where
  "allowed_plays h g =
     ebind (case current_action g of
              Attack \<Rightarrow> allowed_attack h g
            | Defend \<Rightarrow> allowed_defend h g
            | ThrowCards \<Rightarrow> allowed_throw h g
            | _ \<Rightarrow> Inl ValueError)
       (\<lambda>poss_actions.
          if length poss_actions = 0 then Inl (BaseException ''No choice of actions'')
          else Inr poss_actions)"

subsection \<open>main.py: executing an action\<close>

text \<open>
  The payload of a one-card action is unpacked by \<^verbatim>\<open>suit, value = action[1]\<close>; anything but
  a pair fails there. (The Python tuple \<^verbatim>\<open>(None, None)\<close> is written \<open>OneCard (None, None)\<close>.)
\<close>

definition one_card :: "payload \<Rightarrow> error + ident" where
  "one_card pl = (case pl of OneCard sv \<Rightarrow> Inr sv | NoCard \<Rightarrow> Inl TypeError
                  | Cards _ \<Rightarrow> Inl ValueError)"

definition the_player :: "nat option \<Rightarrow> error + nat" where
  "the_player p = (case p of None \<Rightarrow> Inl AttributeError | Some q \<Rightarrow> Inr q)"

text \<open>\<^verbatim>\<open>xs[i]\<close> for a non-negative index.\<close>

definition at_index :: "'a list \<Rightarrow> nat \<Rightarrow> error + 'a" where
  "at_index xs i = (if i < length xs then Inr (xs ! i) else Inl IndexError)"

text \<open>\<^verbatim>\<open>[card for pair in self.pairs_finished for card in pair]\<close>\<close>

definition flatten_pairs :: "(nat \<times> nat) list \<Rightarrow> nat list" where
  "flatten_pairs prs = concat (map (\<lambda>(a, b). [a, b]) prs)"

text \<open>The loop of the \<^verbatim>\<open>ThrowCards\<close> branch over a tuple of pairs.\<close>

fun throw_cards :: "heap \<Rightarrow> GameTree \<Rightarrow> nat \<Rightarrow> ident option list \<Rightarrow> error + heap \<times> GameTree" where
  "throw_cards h g p [] = Inr (h, g)"
| "throw_cards h g p (None # rest) = Inl TypeError"
| "throw_cards h g p (Some sv # rest) =
     ebind (discard_card h g p sv True) (\<lambda>(h', card_played).
     throw_cards h' (g\<lparr>cards_to_defend := cards_to_defend g @ [card_played]\<rparr>) p rest)"

text \<open>
  \<^verbatim>\<open>self.current_attacker = (self.current_attacker + 1) % len(self.attackers)\<close> and
  \<^verbatim>\<open>self.player_to_play = self.attackers[self.current_attacker]\<close>
\<close>

definition next_attacker :: "GameTree \<Rightarrow> error + GameTree" where
  "next_attacker g =
     (if length (attackers g) = 0 then Inl ZeroDivisionError
      else let i = (current_attacker g + 1) mod length (attackers g)
           in Inr (g\<lparr>current_attacker := i, player_to_play := Some (attackers g ! i)\<rparr>))"

text \<open>The seat change shared by \<^verbatim>\<open>Reflect\<close> and \<^verbatim>\<open>ReflectTrump\<close>.\<close>

definition reflect_seats :: "GameTree \<Rightarrow> error + GameTree" where
  "reflect_seats g =
     (let num_old_attackers = length (attackers g) in
      if num_old_attackers = 0 then Inl ZeroDivisionError
      else
        let i = 1 mod num_old_attackers;
            new_defender = attackers g ! i;
            popped = pop_at i (attackers g)
        in ebind (the_player (defender g)) (\<lambda>d.
           let inserted = take i popped @ [d] @ drop i popped
           in Inr (g\<lparr>last_played_attacker := player_to_play g,
                     defender := Some new_defender,
                     draw_order := inserted @ [new_defender],
                     attackers := tl inserted @ [hd inserted],
                     current_action := Defend,
                     player_to_play := Some new_defender\<rparr>)))"

text \<open>The informational print of a closed defence formats both cards of every pair.\<close>

fun str_pairs :: "heap \<Rightarrow> (nat \<times> nat) list \<Rightarrow> error + unit" where
  "str_pairs h [] = Inr ()"
| "str_pairs h ((a, b) # prs) =
     ebind (str_card (cardH h a)) (\<lambda>_. ebind (str_card (cardH h b)) (\<lambda>_. str_pairs h prs))"

text \<open>
  The first part of the \<^verbatim>\<open>ThrowCards\<close> branch: \<^verbatim>\<open>if action[1][0] is not None\<close>, the cards of
  the tuple are discarded and laid on the table.
\<close>

definition throw_payload :: "heap \<Rightarrow> GameTree \<Rightarrow> payload \<Rightarrow> error + heap \<times> GameTree" where
  "throw_payload h g pl =
     (case pl of
        NoCard \<Rightarrow> Inl TypeError
      | OneCard sv \<Rightarrow> if fst sv = None then Inr (h, g) else Inl TypeError
      | Cards [] \<Rightarrow> Inl IndexError
      | Cards (None # _) \<Rightarrow> Inr (h, g)
      | Cards (Some sv # rest) \<Rightarrow>
          ebind (the_player (player_to_play g)) (\<lambda>p. throw_cards h g p (Some sv # rest)))"

text \<open>
  The end of the \<^verbatim>\<open>ThrowCards\<close> branch, when everybody got the chance to throw: the defender
  takes the cards on the table, the players draw, and the next trick starts.
\<close>

definition take_cards :: "heap \<Rightarrow> GameTree \<Rightarrow> error + heap \<times> GameTree" where
  "take_cards h g =
     ebind (the_player (defender g)) (\<lambda>d.
     let cards_on_table = flatten_pairs (pairs_finished g) @ cards_to_defend g;
         h2 = set_hand h d (hand_of h d @ cards_on_table);
         (h3, dk) = fill_hands h2 (draw_order g) (deck g)
     in ebind (new_trick h3 (g\<lparr>deck := dk\<rparr>)
                 (name (playerH h3 (attackers g ! (1 mod length (attackers g))))))
          (\<lambda>g3. Inr (h3, g3)))"

text \<open>
  The end of the \<^verbatim>\<open>PassAttack\<close> branch, when a whole round of attackers passed: the players
  draw, the table must be empty of undefended cards (assert), the pairs are printed, and
  the next trick starts.
\<close>

definition close_defence :: "heap \<Rightarrow> GameTree \<Rightarrow> error + heap \<times> GameTree" where
  "close_defence h g =
     (let (h3, dk) = fill_hands h (draw_order g) (deck g) in
      if cards_to_defend g \<noteq> [] then Inl AssertionError
      else
        ebind (if print_info g then str_pairs h3 (pairs_finished g) else Inr ()) (\<lambda>_.
        ebind (the_player (defender g)) (\<lambda>d.
        ebind (new_trick h3 (g\<lparr>deck := dk\<rparr>) (name (playerH h3 d)))
          (\<lambda>g3. Inr (h3, g3)))))"

definition execute_action :: "heap \<Rightarrow> GameTree \<Rightarrow> action \<Rightarrow> error + heap \<times> GameTree" where
  "execute_action h g0 action =
     (let g = g0\<lparr>history := history g0 @ [action]\<rparr>; pl = fst (snd action) in
      case fst action of
        Attack \<Rightarrow>
          ebind (one_card pl) (\<lambda>sv.
          ebind (the_player (player_to_play g)) (\<lambda>p.
          ebind (discard_card h g p sv True) (\<lambda>(h', card_played).
          Inr (h', g\<lparr>last_played_attacker := player_to_play g,
                    player_to_play := defender g,
                    current_action := Defend,
                    cards_to_defend := cards_to_defend g @ [card_played]\<rparr>))))
      | Defend \<Rightarrow>
          (case cards_to_defend g of
             [] \<Rightarrow> Inl IndexError
           | card_defended # rest \<Rightarrow>
               ebind (one_card pl) (\<lambda>sv.
               ebind (the_player (player_to_play g)) (\<lambda>p.
               ebind (discard_card h (g\<lparr>cards_to_defend := rest\<rparr>) p sv True) (\<lambda>(h', card_played).
               let g1 = g\<lparr>cards_to_defend := rest,
                          pairs_finished := pairs_finished g @ [(card_defended, card_played)]\<rparr>
               in if length rest = 0
                  then ebind (at_index (attackers g1) (current_attacker g1)) (\<lambda>a.
                       Inr (h', g1\<lparr>player_to_play := Some a, current_action := Attack\<rparr>))
                  else Inr (h', g1)))))
      | Take \<Rightarrow>
          ebind (at_index (attackers g) (current_attacker g)) (\<lambda>a.
          Inr (h, g\<lparr>current_action := ThrowCards,
                   player_to_play := Some a,
                   attacker_to_start_throwing := Some (current_attacker g)\<rparr>))
      | ThrowCards \<Rightarrow>
          ebind (throw_payload h g pl) (\<lambda>(h1, g1).
          ebind (next_attacker g1) (\<lambda>g2.
          ebind (case attacker_to_start_throwing g2 of
                   None \<Rightarrow> Inl TypeError
                 | Some i \<Rightarrow> at_index (attackers g2) i) (\<lambda>starter.
          if player_to_play g2 = Some starter then take_cards h1 g2 else Inr (h1, g2))))
      | PassAttack \<Rightarrow>
          ebind (next_attacker g) (\<lambda>g2.
          if player_to_play g2 = last_played_attacker g2 then close_defence h g2
          else Inr (h, g2))
      | Reflect \<Rightarrow>
          ebind (the_player (defender g)) (\<lambda>d.
          ebind (one_card pl) (\<lambda>sv.
          ebind (discard_card h g d sv True) (\<lambda>(h', card_played).
          ebind (reflect_seats g) (\<lambda>g1.
          Inr (h', g1\<lparr>cards_to_defend := cards_to_defend g1 @ [card_played]\<rparr>)))))
      | ReflectTrump \<Rightarrow>
          ebind (one_card pl) (\<lambda>sv.
          if player_to_play g \<noteq> defender g then Inl AssertionError
          else
            ebind (the_player (player_to_play g)) (\<lambda>p.
            ebind (discard_card h g p sv False) (\<lambda>(h', card_played).
            ebind (reflect_seats (g\<lparr>reflected_trumps := reflected_trumps g @ [sv]\<rparr>)) (\<lambda>g1.
            Inr (h', g1)))))
      | Other _ \<Rightarrow> Inl NotImplementedError)"


subsection \<open>main.py: snapshots\<close>

text \<open>\<^verbatim>\<open>Player.make_copy\<close> (the same in every player class): a new player, same name, the
  hand list copied.\<close>

definition make_copy :: "Player \<Rightarrow> Player" where
  "make_copy p = (new_Player (name p))\<lparr>hand := hand p\<rparr>"

text \<open>
  \<^verbatim>\<open>player_ids\<close> and \<^verbatim>\<open>card_ids\<close>: dictionaries from the address of an object to the address
  of its copy; filled in list order, so a later entry for the same key wins. \<^verbatim>\<open>d[k]\<close> raises
  \<^verbatim>\<open>KeyError\<close> on a missing key, \<^verbatim>\<open>d.get(k, None)\<close> does not.
\<close>

definition ids :: "nat list \<Rightarrow> nat list \<Rightarrow> nat \<rightharpoonup> nat" where
  "ids olds news = map_of (rev (zip olds news))"

definition lookup :: "(nat \<rightharpoonup> nat) \<Rightarrow> nat \<Rightarrow> error + nat" where
  "lookup d k = (case d k of None \<Rightarrow> Inl KeyError | Some v \<Rightarrow> Inr v)"

fun lookups :: "(nat \<rightharpoonup> nat) \<Rightarrow> nat list \<Rightarrow> error + nat list" where
  "lookups d [] = Inr []"
| "lookups d (k # ks) = ebind (lookup d k) (\<lambda>v. ebind (lookups d ks) (\<lambda>vs. Inr (v # vs)))"

fun lookup_pairs :: "(nat \<rightharpoonup> nat) \<Rightarrow> (nat \<times> nat) list \<Rightarrow> error + (nat \<times> nat) list" where
  "lookup_pairs d [] = Inr []"
| "lookup_pairs d ((a, b) # ks) =
     ebind (lookup d a) (\<lambda>a'. ebind (lookup d b) (\<lambda>b'.
     ebind (lookup_pairs d ks) (\<lambda>vs. Inr ((a', b') # vs))))"

definition get :: "(nat \<rightharpoonup> nat) \<Rightarrow> nat option \<Rightarrow> nat option" where
  "get d k = (case k of None \<Rightarrow> None | Some a \<Rightarrow> d a)"

text \<open>\<^verbatim>\<open>new.players[player_idx].hand = [card_ids[id(c)] for c in p.hand]\<close>, player by player.\<close>

fun copy_hands :: "(nat \<rightharpoonup> nat) \<Rightarrow> heap \<Rightarrow> (nat \<times> nat) list \<Rightarrow> heap \<Rightarrow> error + heap" where
  "copy_hands d h0 [] h = Inr h"
| "copy_hands d h0 ((p, p') # ps) h =
     ebind (lookups d (hand_of h0 p)) (\<lambda>cs. copy_hands d h0 ps (set_hand h p' cs))"

definition make_deepcopy :: "heap \<Rightarrow> GameTree \<Rightarrow> error + heap \<times> GameTree" where
  "make_deepcopy h g =
     (let (h1, unused) = alloc_players h (map (\<lambda>p. make_copy (playerH h p)) (players g));
          (h2, new_players) = alloc_players h1 (map (\<lambda>p. make_copy (playerH h1 p)) (players g));
          player_ids = ids (players g) new_players
      in ebind (lookups player_ids (attackers g)) (\<lambda>new_attackers.
         ebind (lookups player_ids (draw_order g)) (\<lambda>new_draw_order.
         ebind (case player_to_play g of None \<Rightarrow> Inl KeyError | Some p \<Rightarrow> lookup player_ids p)
           (\<lambda>new_player_to_play.
         let (h3, new_collection) =
                alloc_cards h2 (map (\<lambda>c. make_copy_card (cardH h2 c)) (card_collection g));
             card_ids = ids (card_collection g) new_collection
         in ebind (copy_hands card_ids h (zip (players g) new_players) h3) (\<lambda>h4.
            ebind (lookups card_ids (deck g)) (\<lambda>new_deck.
            ebind (lookups card_ids (cards_to_defend g)) (\<lambda>new_cards_to_defend.
            ebind (lookup_pairs card_ids (pairs_finished g)) (\<lambda>new_pairs_finished.
            Inr (h4,
              \<lparr>players = new_players,
               computer_shuffle = computer_shuffle g,
               print_info = False,
               deck = new_deck,
               all_cards = all_cards g,
               card_collection = new_collection,
               history = history g,
               attackers = new_attackers,
               defender = get player_ids (defender g),
               current_attacker = current_attacker g,
               player_to_play = Some new_player_to_play,
               draw_order = new_draw_order,
               attacker_to_start_throwing = attacker_to_start_throwing g,
               last_played_attacker = get player_ids (last_played_attacker g),
               reflected_trumps = reflected_trumps g,
               current_action = current_action g,
               pairs_finished = new_pairs_finished,
               cards_to_defend = new_cards_to_defend,
               is_end_state = is_end_state g,
               loser = get player_ids (loser g)\<rparr>)))))))))"

subsection \<open>main.py: construction\<close>

text \<open>
  \<^verbatim>\<open>GameTree.__init__\<close> for players that exist in the store. The bottom card is the pair at a
  drawn position of the unknown pairs (\<^verbatim>\<open>computer_shuffle\<close>) or any pair of \<^verbatim>\<open>all_cards\<close> typed
  by the user; both are one draw \<open>r\<close>. An ace on the bottom starts the construction again,
  which may go on for ever: the list of draws is what the run may consume, and \<open>None\<close>
  says that it was used up before a deal without an ace on the bottom came out. The fields
  that \<^verbatim>\<open>__init__\<close> leaves to \<^verbatim>\<open>new_trick\<close> start at \<^verbatim>\<open>None\<close> or empty.
\<close>

definition blank_game :: "nat list \<Rightarrow> bool \<Rightarrow> bool \<Rightarrow> nat list \<Rightarrow> GameTree" where
  "blank_game ps shuffle info dk =
     \<lparr>players = ps, computer_shuffle = shuffle, print_info = info, deck = dk,
      all_cards = the_all_cards, card_collection = dk, history = [],
      attackers = [], defender = None, current_attacker = 0, player_to_play = None,
      draw_order = [], attacker_to_start_throwing = None, last_played_attacker = None,
      reflected_trumps = [], current_action = Attack, pairs_finished = [],
      cards_to_defend = [], is_end_state = False, loser = None\<rparr>"


text \<open>The store in which the caller has constructed the players \<^verbatim>\<open>Player(name)\<close>.\<close>

definition empty_heap :: heap where
  "empty_heap = \<lparr>cardH = (\<lambda>_. new_Card), playerH = (\<lambda>_. new_Player []),
     next_card = 0, next_player = 0\<rparr>"


subsection \<open>Notions of the specification\<close>

text \<open>The living players, clockwise from seat \<open>idx\<close>, in the words of the specification.\<close>

definition living_from :: "heap \<Rightarrow> GameTree \<Rightarrow> nat \<Rightarrow> nat list" where
  "living_from h g idx =
     filter (\<lambda>p. hand_of h p \<noteq> [] \<or> deck g \<noteq> []) (rotate idx (players g))"

text \<open>The card under attack and the player who would have to defend after a reflect.\<close>

definition to_defend :: "heap \<Rightarrow> GameTree \<Rightarrow> Card" where
  "to_defend h g = cardH h (hd (cards_to_defend g))"

definition hypothetical_defender :: "GameTree \<Rightarrow> nat" where
  "hypothetical_defender g = attackers g ! (1 mod length (attackers g))"

text \<open>
  The trump suit of the game is the suit of the bottom card, which \<^verbatim>\<open>__init__\<close> writes into
  every card; the bottom card is the last one of \<^verbatim>\<open>card_collection\<close>.
\<close>

definition game_trump :: "heap \<Rightarrow> GameTree \<Rightarrow> int option" where
  "game_trump h g = suit (cardH h (last (card_collection g)))"

text \<open>\<^verbatim>\<open>key in play_options\<close>\<close>

definition has_key :: "'k \<Rightarrow> ('k \<times> rat) list \<Rightarrow> bool" where
  "has_key k opts \<longleftrightarrow> (\<exists>w. (k, w) \<in> set opts)"


subsection \<open>Well-formed states\<close>

text \<open>All hands, and the cards that are in play: deck, hands and table.\<close>

definition hands :: "heap \<Rightarrow> nat list \<Rightarrow> nat list" where
  "hands h ps = concat (map (hand_of h) ps)"


text \<open>What \<^verbatim>\<open>discard_card\<close> does to the card it returns.\<close>

definition bind_card :: "ident \<Rightarrow> Card \<Rightarrow> Card" where
  "bind_card sv x = x\<lparr>suit := fst sv, val := snd sv\<rparr>"

definition publish :: "Card \<Rightarrow> Card" where
  "publish x = x\<lparr>is_unknown := False, is_private := False, is_public := True\<rparr>"

definition discarded :: "heap \<Rightarrow> ident \<Rightarrow> nat \<Rightarrow> Card" where
  "discarded h sv a =
     publish (if unknown_at h a then bind_card sv (cardH h a) else cardH h a)"








subsection \<open>Reachable states\<close>


subsection \<open>Concrete states used in the examples\<close>

definition example_heap :: "Player list \<Rightarrow> Card list \<Rightarrow> heap" where
  "example_heap ps cs =
     \<lparr>cardH = (\<lambda>a. if a < length cs then cs ! a else new_Card),
      playerH = (\<lambda>p. if p < length ps then ps ! p else new_Player []),
      next_card = length cs, next_player = length ps\<rparr>"

definition known_card :: "int \<Rightarrow> int \<Rightarrow> int \<Rightarrow> bool \<Rightarrow> Card" where
  "known_card s v t pub =
     \<lparr>suit = Some s, val = Some v, trump_suit = Some t,
      is_public = pub, is_private = (\<not> pub), is_unknown = False\<rparr>"

definition rebind_heap :: heap where
  "rebind_heap = set_hand (upd_card empty_heap 0 (\<lambda>_. reset (new_Card\<lparr>trump_suit := Some 2\<rparr>))) 0 [0]"

definition rebind_game :: GameTree where
  "rebind_game = (blank_game [0] True False [0])\<lparr>all_cards := [(Some 2, Some 5)]\<rparr>"

definition attack_heap :: heap where
  "attack_heap = example_heap
     [\<lparr>name = ''A'', hand = [0]\<rparr>, \<lparr>name = ''B'', hand = [1]\<rparr>]
     [known_card 1 3 0 False, known_card 1 7 0 False, known_card 2 3 0 True, known_card 2 5 0 True]"

definition attack_game :: GameTree where
  "attack_game = (blank_game [0, 1] True False [])
     \<lparr>card_collection := [0, 1, 2, 3], attackers := [0], defender := Some 1,
      player_to_play := Some 0, draw_order := [0, 1], pairs_finished := [(2, 3)]\<rparr>"

definition defend_heap :: heap where
  "defend_heap = example_heap
     [\<lparr>name = ''A'', hand = []\<rparr>, \<lparr>name = ''B'', hand = [0, 1]\<rparr>, \<lparr>name = ''C'', hand = [2, 3]\<rparr>]
     [known_card 2 3 0 False, known_card 0 3 0 False, known_card 3 4 0 False,
      known_card 3 5 0 False, known_card 1 3 0 True]"

definition defend_game :: GameTree where
  "defend_game = (blank_game [0, 1, 2] True False [])
     \<lparr>card_collection := [0, 1, 2, 3, 4], attackers := [0, 2], defender := Some 1,
      player_to_play := Some 1, draw_order := [0, 2, 1], current_action := Defend,
      cards_to_defend := [4], last_played_attacker := Some 0\<rparr>"

definition throw_heap :: heap where
  "throw_heap = example_heap
     [\<lparr>name = ''A'', hand = [0, 1]\<rparr>, \<lparr>name = ''B'', hand = [2, 3]\<rparr>]
     [known_card 2 3 0 False, known_card 3 3 0 False, known_card 3 4 0 False,
      known_card 3 5 0 False, known_card 1 3 0 True]"

definition throw_game :: GameTree where
  "throw_game = (blank_game [0, 1] True False [])
     \<lparr>card_collection := [0, 1, 2, 3, 4], attackers := [0], defender := Some 1,
      player_to_play := Some 0, draw_order := [0, 1], current_action := ThrowCards,
      cards_to_defend := [4], last_played_attacker := Some 0,
      attacker_to_start_throwing := Some 0\<rparr>"

definition trick_heap :: heap where
  "trick_heap = example_heap
     [\<lparr>name = ''A'', hand = [0]\<rparr>, \<lparr>name = ''B'', hand = []\<rparr>, \<lparr>name = ''C'', hand = [1]\<rparr>]
     [known_card 2 3 0 False, known_card 3 3 0 False]"

definition trick_game :: GameTree where
  "trick_game = (blank_game [0, 1, 2] True False [])
     \<lparr>card_collection := [0, 1], attackers := [0, 2], defender := Some 1,
      player_to_play := Some 0, draw_order := [0, 2, 1]\<rparr>"











text \<open>
  A state late in a game of two, at which A searches, and the rollout that follows: clubs
  are trumps (the bottom card was the king of clubs), the deck is empty, a pair lies
  finished on the table. A holds the nine of clubs, B three private cards. The search hides
  B's cards; in the rollout A passes, B opens the next trick with a hidden card as the
  nine of spades.
\<close>

definition search_heap :: heap where
  "search_heap = example_heap
     [\<lparr>name = ''A'', hand = [3]\<rparr>, \<lparr>name = ''B'', hand = [0, 1, 2]\<rparr>]
     [known_card 1 3 0 False, known_card 2 5 0 False, known_card 3 5 0 False,
      known_card 0 3 0 False, known_card 2 3 0 True, known_card 2 4 0 True,
      known_card 0 7 0 True]"

definition search_game :: GameTree where
  "search_game = (blank_game [0, 1] True False [])
     \<lparr>card_collection := [0, 1, 2, 3, 4, 5, 6], attackers := [0], defender := Some 1,
      player_to_play := Some 0, draw_order := [0, 1], last_played_attacker := Some 0,
      pairs_finished := [(4, 5)]\<rparr>"

definition hidden_heap :: heap where
  "hidden_heap = example_heap
     [\<lparr>name = ''A'', hand = [3]\<rparr>, \<lparr>name = ''B'', hand = [0, 1, 2]\<rparr>]
     [new_Card, new_Card, new_Card,
      known_card 0 3 0 False, known_card 2 3 0 True, known_card 2 4 0 True,
      known_card 0 7 0 True]"

definition second_game :: GameTree where
  "second_game = search_game
     \<lparr>history := [(PassAttack, NoCard, None)], attackers := [1], defender := Some 0,
      player_to_play := Some 1, draw_order := [1, 0], last_played_attacker := None,
      pairs_finished := []\<rparr>"

definition under_attack_heap :: heap where
  "under_attack_heap = example_heap
     [\<lparr>name = ''A'', hand = [3]\<rparr>, \<lparr>name = ''B'', hand = [1, 2]\<rparr>]
     [\<lparr>suit = Some 1, val = Some 3, trump_suit = None,
       is_public = True, is_private = False, is_unknown = False\<rparr>, new_Card, new_Card,
      known_card 0 3 0 False, known_card 2 3 0 True, known_card 2 4 0 True,
      known_card 0 7 0 True]"

definition under_attack_game :: GameTree where
  "under_attack_game = second_game
     \<lparr>history := [(PassAttack, NoCard, None), (Attack, OneCard (Some 1, Some 3), None)],
      player_to_play := Some 0, last_played_attacker := Some 1,
      current_action := Defend, cards_to_defend := [0]\<rparr>"






section \<open>Basic facts\<close>

lemma ebind_Inr_iff: "ebind m f = Inr y \<longleftrightarrow> (\<exists>x. m = Inr x \<and> f x = Inr y)"
  by (cases m) (auto simp: ebind_def)

lemma from_suit_value_Inr:
  "from_suit_value c s v = Inr c' \<longleftrightarrow> is_unknown c \<and> c' = c\<lparr>suit := s, val := v, is_unknown := False\<rparr>"
  by (auto simp: from_suit_value_def)

lemma first_index_Some:
  "first_index P xs = Some i \<Longrightarrow> i < length xs \<and> P (xs ! i) \<and> (\<forall>j < i. \<not> P (xs ! j))"
proof (induction xs arbitrary: i)
  case Nil
  then show ?case by simp
next
  case (Cons x xs)
  show ?case
  proof (cases "P x")
    case True
    with Cons.prems show ?thesis by simp
  next
    case False
    with Cons.prems obtain j where j: "first_index P xs = Some j" "i = Suc j" by auto
    from Cons.IH[OF j(1)] False j(2) show ?thesis
      by (auto simp: less_Suc_eq_0_disj)
  qed
qed


lemma rotate_by_index:
  assumes "xs \<noteq> []"
  shows "map (\<lambda>i. xs ! (i mod length xs)) [k ..< k + length xs] = rotate k xs"
proof (rule nth_equalityI)
  show "length (map (\<lambda>i. xs ! (i mod length xs)) [k ..< k + length xs]) = length (rotate k xs)"
    by simp
next
  fix i assume "i < length (map (\<lambda>i. xs ! (i mod length xs)) [k ..< k + length xs])"
  then have i: "i < length xs" by simp
  then show "map (\<lambda>i. xs ! (i mod length xs)) [k ..< k + length xs] ! i = rotate k xs ! i"
    by (simp add: nth_rotate)
qed

lemmas example_simps = example_heap_def known_card_def blank_game_def hand_of_def
  unknown_at_def ident_at_def ident_of_def new_Card_def new_Player_def

section \<open>Cards that were reset\<close>

lemma determinize_loop_known:
  "determinize_loop rnd i cs u h = Inr h' \<Longrightarrow> \<not> unknown_at h a \<Longrightarrow>
     cardH h' a = cardH h a"
proof (induction cs arbitrary: i u h)
  case Nil
  then show ?case by simp
next
  case (Cons c cs)
  from Cons.prems(1) have ne: "u \<noteq> []" by (auto split: if_splits)
  define k where "k = rnd i mod length u"
  from Cons.prems(1) ne obtain c' where
    c': "from_suit_value (cardH h c) (fst (u ! k)) (snd (u ! k)) = Inr c'"
    and rest: "determinize_loop rnd (Suc i) cs (pop_at k u)
                 (upd_card h c (\<lambda>_. c'\<lparr>is_public := True\<rparr>)) = Inr h'"
    by (auto simp: ebind_Inr_iff Let_def k_def)
  from c' have unk: "unknown_at h c" by (simp add: from_suit_value_Inr unknown_at_def)
  with Cons.prems(2) have neq: "a \<noteq> c" by auto
  then have "\<not> unknown_at (upd_card h c (\<lambda>_. c'\<lparr>is_public := True\<rparr>)) a"
    using Cons.prems(2) by (simp add: unknown_at_def upd_card_def)
  from Cons.IH[OF rest this] neq show ?case by (simp add: upd_card_def)
qed

lemma determinize_loop_trump:
  "determinize_loop rnd i cs u h = Inr h' \<Longrightarrow> trump_suit (cardH h' a) = trump_suit (cardH h a)"
proof (induction cs arbitrary: i u h)
  case Nil
  then show ?case by simp
next
  case (Cons c cs)
  from Cons.prems(1) have ne: "u \<noteq> []" by (auto split: if_splits)
  define k where "k = rnd i mod length u"
  from Cons.prems(1) ne obtain c' where
    c': "from_suit_value (cardH h c) (fst (u ! k)) (snd (u ! k)) = Inr c'"
    and rest: "determinize_loop rnd (Suc i) cs (pop_at k u)
                 (upd_card h c (\<lambda>_. c'\<lparr>is_public := True\<rparr>)) = Inr h'"
    by (auto simp: ebind_Inr_iff Let_def k_def)
  from Cons.IH[OF rest] c' show ?case
    by (auto simp: upd_card_def from_suit_value_Inr)
qed

lemma determinize_loop_bound:
  "determinize_loop rnd i cs u h = Inr h' \<Longrightarrow> a \<in> set cs \<Longrightarrow>
     \<not> unknown_at h' a \<and> ident_at h' a \<in> set u"
proof (induction cs arbitrary: i u h)
  case Nil
  then show ?case by simp
next
  case (Cons c cs)
  from Cons.prems(1) have ne: "u \<noteq> []" by (auto split: if_splits)
  define k where "k = rnd i mod length u"
  define h1 where "h1 = upd_card h c (\<lambda>_. (cardH h c)\<lparr>suit := fst (u ! k), val := snd (u ! k), is_unknown := False, is_public := True\<rparr>)"
  from Cons.prems(1) ne have unk: "is_unknown (cardH h c)"
    and rest: "determinize_loop rnd (Suc i) cs (pop_at k u) h1 = Inr h'"
    by (auto simp: ebind_Inr_iff Let_def k_def h1_def from_suit_value_Inr)
  have klt: "k < length u" using ne by (simp add: k_def)
  have sub: "set (pop_at k u) \<subseteq> set u"
    by (auto simp: pop_at_def dest: in_set_takeD in_set_dropD)
  show ?case
  proof (cases "a = c")
    case True
    have known: "\<not> unknown_at h1 a" using True by (simp add: h1_def unknown_at_def upd_card_def)
    from determinize_loop_known[OF rest known]
    have "cardH h' a = cardH h1 a" .
    then show ?thesis using True klt
      by (simp add: h1_def unknown_at_def ident_at_def ident_of_def upd_card_def)
  next
    case False
    with Cons.prems(2) have "a \<in> set cs" by simp
    from Cons.IH[OF rest this] sub show ?thesis by auto
  qed
qed

lemma fold_public_card:
  "cardH (fold (\<lambda>c h'. if unknown_at h' c then h'
            else upd_card h' c (\<lambda>x. x\<lparr>is_private := False, is_public := True\<rparr>)) cs h) a
   = (if a \<in> set cs \<and> \<not> unknown_at h a then (cardH h a)\<lparr>is_private := False, is_public := True\<rparr>
      else cardH h a)"
proof (induction cs arbitrary: h)
  case Nil
  then show ?case by simp
next
  case (Cons c cs)
  show ?case
    by (simp add: Cons.IH) (auto simp: upd_card_def unknown_at_def)
qed

text \<open>
  C10. \<^verbatim>\<open>reset\<close> sets \<^verbatim>\<open>trump_suit\<close> to \<^verbatim>\<open>None\<close>; \<^verbatim>\<open>from_suit_value\<close> assigns suit and value and
  leaves \<^verbatim>\<open>trump_suit\<close> as it is. So a card of a hand that was reset and is then bound by
  \<^verbatim>\<open>determinize_hand\<close> has a suit, has \<^verbatim>\<open>trump_suit = None\<close>, and \<^verbatim>\<open>is_trump\<close> is false for it
  whatever its suit is.
\<close>

theorem reset_then_rebind_never_trump:
  "trump_suit (reset c) = None
   \<and> (from_suit_value c s v = Inr c' \<longrightarrow>
        suit c' = s \<and> val c' = v \<and> trump_suit c' = trump_suit c)
   \<and> (determinize_hand h g p rnd = Inr h' \<and> a \<in> set (hand_of h p) \<and> cardH h a = reset c0
        \<and> None \<notin> fst ` set (all_cards g) \<longrightarrow>
        \<not> unknown_at h' a \<and> suit (cardH h' a) \<noteq> None \<and> trump_suit (cardH h' a) = None
        \<and> \<not> is_trump (cardH h' a))"
proof (intro conjI impI)
  show "trump_suit (reset c) = None" by (simp add: reset_def)
next
  assume "from_suit_value c s v = Inr c'"
  then show "suit c' = s" "val c' = v" "trump_suit c' = trump_suit c"
    by (auto simp: from_suit_value_Inr)
next
  assume asm: "determinize_hand h g p rnd = Inr h' \<and> a \<in> set (hand_of h p) \<and> cardH h a = reset c0
        \<and> None \<notin> fst ` set (all_cards g)"
  define h1 where "h1 = fold (\<lambda>c h'. if unknown_at h' c then h'
            else upd_card h' c (\<lambda>x. x\<lparr>is_private := False, is_public := True\<rparr>)) (hand_of h p) h"
  have unk: "unknown_at h a" using asm by (simp add: unknown_at_def reset_def)
  then have ain: "a \<in> set (filter (unknown_at h) (hand_of h p))" using asm by simp
  then have pos: "length (filter (unknown_at h) (hand_of h p)) > 0"
    by (metis length_pos_if_in_set)
  have h1a: "cardH h1 a = cardH h a" using unk by (simp add: h1_def fold_public_card)
  from asm pos have loop: "determinize_loop rnd 0 (filter (unknown_at h) (hand_of h p))
                    (get_non_public_cards h1 g) h1 = Inr h'"
    by (simp add: determinize_hand_def Let_def h1_def)
  from determinize_loop_bound[OF loop ain]
  have known: "\<not> unknown_at h' a" and idin: "ident_at h' a \<in> set (get_non_public_cards h1 g)"
    by auto
  from idin have "ident_at h' a \<in> set (all_cards g)"
    by (simp add: get_non_public_cards_def)
  with asm have s: "suit (cardH h' a) \<noteq> None"
    by (force simp: ident_at_def ident_of_def)
  from determinize_loop_trump[OF loop, of a] h1a asm
  have t: "trump_suit (cardH h' a) = None" by (simp add: reset_def)
  from known s t
  show "\<not> unknown_at h' a" "suit (cardH h' a) \<noteq> None" "trump_suit (cardH h' a) = None"
    "\<not> is_trump (cardH h' a)"
    by (auto simp: is_trump_def)
qed

lemma rebind_determinize:
  "determinize_hand rebind_heap rebind_game 0 (\<lambda>_. 0)
     = Inr (upd_card rebind_heap 0
         (\<lambda>_. new_Card\<lparr>suit := Some 2, val := Some 5, is_unknown := False, is_public := True\<rparr>))"
  by (simp add: determinize_hand_def rebind_heap_def rebind_game_def blank_game_def hand_of_def
      set_hand_def upd_card_def empty_heap_def unknown_at_def reset_def new_Card_def
      get_non_public_cards_def ident_at_def ident_of_def from_suit_value_def ebind_def
      pop_at_def)

theorem reset_then_rebind_never_trump_witness:
  "from_suit_value (reset new_Card) (Some 2) (Some 5)
     = Inr (new_Card\<lparr>suit := Some 2, val := Some 5, is_unknown := False\<rparr>)
   \<and> trump_suit (new_Card\<lparr>suit := Some 2, val := Some 5, is_unknown := False\<rparr>) = None
   \<and> (\<exists>h'. determinize_hand rebind_heap rebind_game 0 (\<lambda>_. 0) = Inr h'
        \<and> 0 \<in> set (hand_of rebind_heap 0)
        \<and> cardH rebind_heap 0 = reset (new_Card\<lparr>trump_suit := Some 2\<rparr>)
        \<and> None \<notin> fst ` set (all_cards rebind_game)
        \<and> suit (cardH h' 0) = Some 2 \<and> \<not> is_trump (cardH h' 0))"
proof -
  let ?h' = "upd_card rebind_heap 0
         (\<lambda>_. new_Card\<lparr>suit := Some 2, val := Some 5, is_unknown := False, is_public := True\<rparr>)"
  have 1: "from_suit_value (reset new_Card) (Some 2) (Some 5)
     = Inr (new_Card\<lparr>suit := Some 2, val := Some 5, is_unknown := False\<rparr>)"
    by (simp add: from_suit_value_def reset_def new_Card_def)
  have 2: "0 \<in> set (hand_of rebind_heap 0)"
    by (simp add: rebind_heap_def hand_of_def set_hand_def upd_card_def)
  have 3: "cardH rebind_heap 0 = reset (new_Card\<lparr>trump_suit := Some 2\<rparr>)"
    by (simp add: rebind_heap_def set_hand_def upd_card_def)
  have 4: "None \<notin> fst ` set (all_cards rebind_game)"
    by (simp add: rebind_game_def)
  have 5: "suit (cardH ?h' 0) = Some 2" by (simp add: upd_card_def)
  from reset_then_rebind_never_trump[where c = "reset new_Card" and s = "Some 2" and v = "Some 5"
      and c' = "new_Card\<lparr>suit := Some 2, val := Some 5, is_unknown := False\<rparr>"
      and h = rebind_heap and g = rebind_game and p = 0 and rnd = "\<lambda>_. 0" and h' = ?h' and a = 0
      and ?c0.0 = "new_Card\<lparr>trump_suit := Some 2\<rparr>"]
    1 2 3 4 5 rebind_determinize
  show ?thesis by (auto simp: new_Card_def)
qed

section \<open>Random choice of an action\<close>

text \<open>
  C9. \<^verbatim>\<open>choose_random_action\<close> on weighted triples: with the actions \<^verbatim>\<open>Take\<close> of weight 1/2 and
  \<^verbatim>\<open>Defend\<close> of weight 1, a choice proportional to the weights returns them with
  probability 1/3 and 2/3. The code returns each with probability 1/2: \<^verbatim>\<open>choose_random\<close>
  receives the weights and calls \<^verbatim>\<open>random.choices\<close> without them.
\<close>

theorem choose_random_action_drops_weights:
  "prob_action [(Take, NoCard, Some (1 / 2)), (Defend, OneCard (Some 0, Some 1), Some 1)]
     (Take, NoCard, None) = 1 / 2
   \<and> prob_action [(Take, NoCard, Some (1 / 2)), (Defend, OneCard (Some 0, Some 1), Some 1)]
     (Defend, OneCard (Some 0, Some 1), None) = 1 / 2"
proof -
  have upt2: "[0 ..< 2] = [0, Suc 0]" by (simp add: upt_rec numeral_2_eq_2)
  show ?thesis
    by (simp add: prob_action_def choose_random_action_def choose_random_def random_choices_def
        ebind_def upt2)
qed

section \<open>Opening a trick\<close>

text \<open>
  \<^verbatim>\<open>new_trick\<close> assigns \<^verbatim>\<open>is_end_state\<close> only in its two terminal branches: with two or more
  living players the flag keeps the value it had.
\<close>

lemma new_trick_keeps_end_state:
  assumes "new_trick h g main_attacker = Inr g'"
    and "first_index (\<lambda>p. name (playerH h p) = main_attacker) (players g) = Some idx"
    and "2 \<le> length (living_from h g idx)"
  shows "is_end_state g' = is_end_state g"
proof -
  from first_index_Some[OF assms(2)] have ne: "players g \<noteq> []" by auto
  have L: "filter (living h g)
             (map (\<lambda>i. players g ! (i mod length (players g))) [idx ..< idx + length (players g)])
           = living_from h g idx"
    by (simp add: rotate_by_index[OF ne] living_from_def living_def[abs_def])
  let ?L = "living_from h g idx"
  from assms(3) have n: "length ?L \<noteq> 0" "length ?L \<noteq> 1" by auto
  have "new_trick h g main_attacker = Inr
     (g\<lparr>attackers := pop_at 1 ?L,
           defender := Some (?L ! 1),
           current_attacker := 0,
           player_to_play := Some (?L ! 0),
           draw_order := pop_at 1 ?L @ [?L ! 1],
           attacker_to_start_throwing := None,
           last_played_attacker := None,
           reflected_trumps := [],
           current_action := Attack, pairs_finished := [], cards_to_defend := []\<rparr>)"
    by (simp only: new_trick_def Let_def assms(2) option.case L n if_False)
  with assms(1) show ?thesis by auto
qed

text \<open>
  C8. \<^verbatim>\<open>new_trick\<close> finds the seat of the main attacker and collects the living players
  clockwise from it (a player is living when the hand or the deck is not empty). With no
  living player the state is terminal and the loser is the previous defender; with one, the
  state is terminal and that player is the loser; with two or more the state is not
  terminal, the second living player is the defender and the others are the attackers.
  The hypothesis that the state is not terminal before the call holds wherever the program
  calls \<^verbatim>\<open>new_trick\<close>: in \<^verbatim>\<open>__init__\<close>, where \<^verbatim>\<open>is_end_state\<close> is the class attribute \<^verbatim>\<open>False\<close>, and in
  \<^verbatim>\<open>execute_action\<close>, which \<^verbatim>\<open>next\<close> and the search loops run on non-terminal states only.
\<close>

theorem new_trick_outcome:
  assumes "new_trick h g main_attacker = Inr g'"
    and "first_index (\<lambda>p. name (playerH h p) = main_attacker) (players g) = Some idx"
    and "\<not> is_end_state g"
  shows "(length (living_from h g idx) = 0 \<longrightarrow> is_end_state g' \<and> loser g' = defender g)
       \<and> (length (living_from h g idx) = 1 \<longrightarrow>
            is_end_state g' \<and> loser g' = Some (living_from h g idx ! 0))
       \<and> (2 \<le> length (living_from h g idx) \<longrightarrow>
            \<not> is_end_state g'
            \<and> defender g' = Some (living_from h g idx ! 1)
            \<and> attackers g' = living_from h g idx ! 0 # drop 2 (living_from h g idx))"
proof -
  from first_index_Some[OF assms(2)] have ne: "players g \<noteq> []" by auto
  have L: "filter (living h g)
             (map (\<lambda>i. players g ! (i mod length (players g))) [idx ..< idx + length (players g)])
           = living_from h g idx"
    by (simp add: rotate_by_index[OF ne] living_from_def living_def[abs_def])
  have pop: "2 \<le> length xs \<Longrightarrow> pop_at 1 xs = xs ! 0 # drop 2 xs" for xs :: "nat list"
    by (cases xs) (auto simp: pop_at_def numeral_2_eq_2)
  let ?L = "living_from h g idx"
  have "new_trick h g main_attacker = Inr
     ((if length ?L = 0 then
         g\<lparr>attackers := ?L, is_end_state := True, loser := defender g\<rparr>
       else if length ?L = 1 then
         g\<lparr>attackers := ?L, is_end_state := True, loser := Some (?L ! 0)\<rparr>
       else
         g\<lparr>attackers := pop_at 1 ?L,
           defender := Some (?L ! 1),
           current_attacker := 0,
           player_to_play := Some (?L ! 0),
           draw_order := pop_at 1 ?L @ [?L ! 1],
           attacker_to_start_throwing := None,
           last_played_attacker := None,
           reflected_trumps := []\<rparr>)
      \<lparr>current_action := Attack, pairs_finished := [], cards_to_defend := []\<rparr>)"
    by (simp only: new_trick_def Let_def assms(2) option.case L)
  with assms(1) have g': "g' =
     ((if length ?L = 0 then
         g\<lparr>attackers := ?L, is_end_state := True, loser := defender g\<rparr>
       else if length ?L = 1 then
         g\<lparr>attackers := ?L, is_end_state := True, loser := Some (?L ! 0)\<rparr>
       else
         g\<lparr>attackers := pop_at 1 ?L,
           defender := Some (?L ! 1),
           current_attacker := 0,
           player_to_play := Some (?L ! 0),
           draw_order := pop_at 1 ?L @ [?L ! 1],
           attacker_to_start_throwing := None,
           last_played_attacker := None,
           reflected_trumps := []\<rparr>)
      \<lparr>current_action := Attack, pairs_finished := [], cards_to_defend := []\<rparr>)"
    by simp
  consider "length ?L = 0" | "length ?L = 1" | "2 \<le> length ?L" by linarith
  then show ?thesis
  proof cases
    case 1
    then show ?thesis by (simp add: g')
  next
    case 2
    then show ?thesis by (simp add: g')
  next
    case 3
    then have n: "length ?L \<noteq> 0" "length ?L \<noteq> 1" by auto
    from 3 have ne: "?L \<noteq> []" by auto
    show ?thesis using 3 ne assms(3) by (simp add: g' n pop del: One_nat_def)
  qed
qed

lemma trick_example_index:
  "first_index (\<lambda>p. name (playerH trick_heap p) = ''B'') (players trick_game) = Some 1"
  by (simp add: trick_heap_def trick_game_def example_simps)

lemma trick_example_living: "living_from trick_heap trick_game 1 = [2, 0]"
  by (simp add: living_from_def trick_heap_def trick_game_def example_simps rotate1_def)

theorem new_trick_outcome_witness:
  "(\<exists>g'. new_trick trick_heap trick_game ''B'' = Inr g'
      \<and> first_index (\<lambda>p. name (playerH trick_heap p) = ''B'') (players trick_game) = Some 1
      \<and> \<not> is_end_state trick_game
      \<and> living_from trick_heap trick_game 1 = [2, 0]
      \<and> \<not> is_end_state g' \<and> defender g' = Some 0 \<and> attackers g' = [2])"
proof -
  obtain g' where g': "new_trick trick_heap trick_game ''B'' = Inr g'"
    using trick_example_index by (simp add: new_trick_def Let_def)
  have e: "\<not> is_end_state trick_game" by (simp add: trick_game_def blank_game_def)
  from new_trick_outcome[OF g' trick_example_index e] g' trick_example_index
    trick_example_living e
  show ?thesis by simp
qed

section \<open>The legal actions\<close>

lemma allowed_plays_Attack:
  "current_action g = Attack \<Longrightarrow> allowed_plays h g = Inr acts \<Longrightarrow> allowed_attack h g = Inr acts"
  by (auto simp: allowed_plays_def ebind_Inr_iff split: if_splits)

text \<open>
  C6. In the attack phase \<^verbatim>\<open>allowed_plays\<close> returns a \<^verbatim>\<open>PassAttack\<close> exactly when
  \<^verbatim>\<open>pairs_finished\<close> is not empty; every \<^verbatim>\<open>Attack\<close> it returns carries one (suit, value) pair,
  is returned only when the defender's hand is not empty, and, when \<^verbatim>\<open>pairs_finished\<close> is not
  empty, has a value that lies on the table.
\<close>

theorem attack_phase_actions:
  assumes "allowed_plays h g = Inr acts" and "current_action g = Attack"
  shows "((\<exists>pl w. (PassAttack, pl, w) \<in> set acts) \<longleftrightarrow> pairs_finished g \<noteq> [])
       \<and> (\<forall>pl w. (Attack, pl, w) \<in> set acts \<longrightarrow>
            (\<exists>d. defender g = Some d \<and> hand_of h d \<noteq> [])
            \<and> (\<exists>s v. pl = OneCard (s, v)
                 \<and> (pairs_finished g \<noteq> [] \<longrightarrow> v \<in> set (table_values h g))))"
proof -
  from assms have a: "allowed_attack h g = Inr acts" by (simp add: allowed_plays_Attack)
  then obtain d where d: "defender g = Some d"
    by (auto simp: allowed_attack_def Let_def split: if_splits option.splits)
  define pp where "pp = possible_card_plays h (attackers g ! current_attacker g)
                          (get_non_public_cards h g)"
  from a d have acts: "acts =
      (if pairs_finished g \<noteq> [] then [(PassAttack, NoCard, None)] else [])
      @ (if hand_of h d \<noteq> []
         then map (\<lambda>sv. (Attack, OneCard sv, None))
                (if pairs_finished g \<noteq> []
                 then filter (\<lambda>c. snd c \<in> set (pair_values h (pairs_finished g))) pp else pp)
         else [])"
    by (auto simp: allowed_attack_def Let_def pp_def split: if_splits)
  show ?thesis
    unfolding acts using d by (auto simp: table_values_def)
qed

lemma attack_example:
  "allowed_plays attack_heap attack_game
     = Inr [(PassAttack, NoCard, None), (Attack, OneCard (Some 1, Some 3), None)]"
  by (simp add: allowed_plays_def allowed_attack_def attack_heap_def attack_game_def
      example_simps possible_card_plays_def pair_values_def ebind_def Let_def)

theorem attack_phase_actions_witness:
  "allowed_plays attack_heap attack_game
     = Inr [(PassAttack, NoCard, None), (Attack, OneCard (Some 1, Some 3), None)]
   \<and> current_action attack_game = Attack
   \<and> pairs_finished attack_game \<noteq> []
   \<and> defender attack_game = Some 1 \<and> hand_of attack_heap 1 \<noteq> []
   \<and> Some 3 \<in> set (table_values attack_heap attack_game)"
proof -
  have c: "current_action attack_game = Attack"
    by (simp add: attack_game_def blank_game_def)
  have d: "defender attack_game = Some 1" "hand_of attack_heap 1 \<noteq> []"
    by (simp_all add: attack_game_def attack_heap_def example_simps)
  from attack_phase_actions[OF attack_example c] attack_example c d
  show ?thesis by auto
qed

lemma combinations_iff:
  "ys \<in> set (combinations xs r) \<longleftrightarrow> subseq ys xs \<and> length ys = r"
proof (induction xs r arbitrary: ys rule: combinations.induct)
  case (1 xs)
  then show ?case by auto
next
  case (2 r)
  then show ?case by auto
next
  case (3 x xs r)
  show ?case
  proof (cases ys)
    case Nil
    then show ?thesis by (auto simp: 3)
  next
    case (Cons y zs)
    show ?thesis
    proof (cases "y = x")
      case True
      have "subseq (x # zs) xs \<Longrightarrow> subseq zs xs" by (rule subseq_Cons')
      then show ?thesis using True Cons by (auto simp: 3 image_iff)
    next
      case False
      then show ?thesis using Cons by (auto simp: 3)
    qed
  qed
qed

lemma distinct_possible_card_plays_loop:
  "distinct acc \<Longrightarrow> distinct (possible_card_plays_loop h np cs acc)"
  by (induction cs arbitrary: acc) auto

lemma distinct_poss_throws: "distinct (poss_throws h g p)"
  by (simp add: poss_throws_def possible_card_plays_def distinct_possible_card_plays_loop)

lemma allowed_plays_Throw:
  "current_action g = ThrowCards \<Longrightarrow> allowed_plays h g = Inr acts \<Longrightarrow> allowed_throw h g = Inr acts"
  by (auto simp: allowed_plays_def ebind_Inr_iff split: if_splits)

text \<open>
  C4. In the throw phase every \<^verbatim>\<open>ThrowCards\<close> action other than the pass \<^verbatim>\<open>(None,)\<close> carries a
  tuple of at least one and at most min(defender's hand size - \<^verbatim>\<open>len(cards_to_defend)\<close>,
  number of candidate pairs, thrower's hand size) pairs; every selection of candidates
  within that bound that \<^verbatim>\<open>can_throw\<close> accepts is returned (a selection is the tuple that
  \<^verbatim>\<open>combinations\<close> makes of it: its pairs in the order of the candidate set); and the pass
  is always returned.
\<close>

theorem throw_phase_actions:
  assumes "allowed_plays h g = Inr acts" and "current_action g = ThrowCards"
    and "player_to_play g = Some p" and "defender g = Some d"
  shows "(\<forall>pl w. (ThrowCards, pl, w) \<in> set acts \<and> pl \<noteq> Cards [None] \<longrightarrow>
           (\<exists>opt. pl = Cards (map Some opt) \<and> 1 \<le> length opt
              \<and> int (length opt) \<le> int (length (hand_of h d)) - int (length (cards_to_defend g))
              \<and> length opt \<le> card (set (poss_throws h g p))
              \<and> length opt \<le> length (hand_of h p)))
       \<and> (\<forall>opt. subseq opt (poss_throws h g p) \<and> 1 \<le> length opt
              \<and> int (length opt) \<le> int (length (hand_of h d)) - int (length (cards_to_defend g))
              \<and> length opt \<le> card (set (poss_throws h g p))
              \<and> length opt \<le> length (hand_of h p)
              \<and> can_throw h p (get_non_public_cards h g) opt \<longrightarrow>
           (ThrowCards, Cards (map Some opt), None) \<in> set acts)
       \<and> (ThrowCards, Cards [None], None) \<in> set acts"
proof -
  have card_eq: "card (set (poss_throws h g p)) = length (poss_throws h g p)"
    by (simp add: distinct_card distinct_poss_throws)
  define M where "M = nat (max_throws h g p d)"
  have M: "1 \<le> n \<and> n \<le> M \<longleftrightarrow>
             1 \<le> n \<and> int n \<le> int (length (hand_of h d)) - int (length (cards_to_defend g))
             \<and> n \<le> length (poss_throws h g p) \<and> n \<le> length (hand_of h p)" for n
    by (auto simp: M_def max_throws_def Let_def)
  from assms have "allowed_throw h g = Inr acts" by (simp add: allowed_plays_Throw)
  with assms(3,4) have acts: "acts = (ThrowCards, Cards [None], None)
        # concat (map (\<lambda>throw.
             map (\<lambda>option. (ThrowCards, Cards (map Some option), None))
               (filter (can_throw h p (get_non_public_cards h g))
                  (combinations (poss_throws h g p) throw)))
             [1 ..< Suc M])"
    by (simp add: allowed_throw_def Let_def M_def)
  have mem: "(ThrowCards, pl, w) \<in> set acts \<longleftrightarrow>
               pl = Cards [None] \<and> w = None
               \<or> (\<exists>opt. pl = Cards (map Some opt) \<and> w = None \<and> 1 \<le> length opt \<and> length opt \<le> M
                    \<and> subseq opt (poss_throws h g p)
                    \<and> can_throw h p (get_non_public_cards h g) opt)" for pl w
    unfolding acts by (auto simp: combinations_iff)
  show ?thesis
  proof (intro conjI allI impI)
    fix pl w assume "(ThrowCards, pl, w) \<in> set acts \<and> pl \<noteq> Cards [None]"
    then obtain opt where o: "pl = Cards (map Some opt)" "1 \<le> length opt \<and> length opt \<le> M"
      by (auto simp: mem)
    from o(2) M[of "length opt"] o(1) card_eq
    show "\<exists>opt. pl = Cards (map Some opt) \<and> 1 \<le> length opt
              \<and> int (length opt) \<le> int (length (hand_of h d)) - int (length (cards_to_defend g))
              \<and> length opt \<le> card (set (poss_throws h g p))
              \<and> length opt \<le> length (hand_of h p)"
      by auto
  next
    fix opt assume a: "subseq opt (poss_throws h g p) \<and> 1 \<le> length opt
              \<and> int (length opt) \<le> int (length (hand_of h d)) - int (length (cards_to_defend g))
              \<and> length opt \<le> card (set (poss_throws h g p))
              \<and> length opt \<le> length (hand_of h p)
              \<and> can_throw h p (get_non_public_cards h g) opt"
    with M[of "length opt"] card_eq have "1 \<le> length opt \<and> length opt \<le> M" by simp
    with a show "(ThrowCards, Cards (map Some opt), None) \<in> set acts"
      by (subst mem) blast
  next
    show "(ThrowCards, Cards [None], None) \<in> set acts" by (simp add: acts)
  qed
qed

lemma throw_example:
  "allowed_plays throw_heap throw_game
     = Inr [(ThrowCards, Cards [None], None),
            (ThrowCards, Cards [Some (Some 3, Some 3)], None),
            (ThrowCards, Cards [Some (Some 2, Some 3)], None)]"
  by (simp add: allowed_plays_def allowed_throw_def throw_heap_def throw_game_def
      example_simps poss_throws_def max_throws_def table_values_def pair_values_def
      possible_card_plays_def can_throw_def pop_at_def ebind_def Let_def)

theorem throw_phase_actions_witness:
  "allowed_plays throw_heap throw_game
     = Inr [(ThrowCards, Cards [None], None),
            (ThrowCards, Cards [Some (Some 3, Some 3)], None),
            (ThrowCards, Cards [Some (Some 2, Some 3)], None)]
   \<and> current_action throw_game = ThrowCards
   \<and> player_to_play throw_game = Some 0 \<and> defender throw_game = Some 1
   \<and> poss_throws throw_heap throw_game 0 = [(Some 3, Some 3), (Some 2, Some 3)]
   \<and> int (length (hand_of throw_heap 1)) - int (length (cards_to_defend throw_game)) = 1
   \<and> subseq [(Some 2, Some 3)] (poss_throws throw_heap throw_game 0)
   \<and> can_throw throw_heap 0 (get_non_public_cards throw_heap throw_game) [(Some 2, Some 3)]
   \<and> (ThrowCards, Cards [Some (Some 3, Some 3), Some (Some 2, Some 3)], None)
        \<notin> set [(ThrowCards, Cards [None], None),
                 (ThrowCards, Cards [Some (Some 3, Some 3)], None),
                 (ThrowCards, Cards [Some (Some 2, Some 3)], None)]"
proof -
  have c: "current_action throw_game = ThrowCards" "player_to_play throw_game = Some 0"
    "defender throw_game = Some 1"
    by (simp_all add: throw_game_def blank_game_def)
  have pt: "poss_throws throw_heap throw_game 0 = [(Some 3, Some 3), (Some 2, Some 3)]"
    by (simp add: throw_heap_def throw_game_def example_simps poss_throws_def
        table_values_def pair_values_def possible_card_plays_def)
  have n: "int (length (hand_of throw_heap 1)) - int (length (cards_to_defend throw_game)) = 1"
    by (simp add: throw_heap_def throw_game_def example_simps)
  have ct: "can_throw throw_heap 0 (get_non_public_cards throw_heap throw_game) [(Some 2, Some 3)]"
    by (simp add: throw_heap_def example_simps can_throw_def pop_at_def)
  from throw_phase_actions[OF throw_example c] throw_example c pt n ct
  show ?thesis by simp
qed

lemma has_key_Nil [simp]: "\<not> has_key k []"
  by (simp add: has_key_def)

lemma has_key_Cons [simp]: "has_key k (x # opts) \<longleftrightarrow> k = fst x \<or> has_key k opts"
  by (cases x) (auto simp: has_key_def)

lemma keys_add_weight: "has_key x (add_weight k w opts) \<longleftrightarrow> x = k \<or> has_key x opts"
  by (induction opts) (auto split: if_splits)

lemma keys_fold_add_weight:
  "has_key x (fold (\<lambda>a. add_weight a w) acts opts) \<longleftrightarrow> x \<in> set acts \<or> has_key x opts"
  by (induction acts arbitrary: opts) (auto simp: keys_add_weight)

lemma keys_add_options: "has_key x (add_options acts opts) \<longleftrightarrow> x \<in> set acts \<or> has_key x opts"
  by (simp add: add_options_def keys_fold_add_weight)

lemma reflect_options_Inr:
  assumes "reflect_options h g td sv = Inr r"
  shows "set r = {x. x = (Reflect, sv) \<and> pairs_finished g = [] \<and> snd sv = val td
                     \<and> length (cards_to_defend g) + 1 \<le> length (hand_of h (hypothetical_defender g))}
               \<union> {x. x = (ReflectTrump, sv) \<and> pairs_finished g = [] \<and> snd sv = val td
                     \<and> fst sv = trump_suit td \<and> sv \<notin> set (reflected_trumps g)
                     \<and> length (cards_to_defend g) \<le> length (hand_of h (hypothetical_defender g))}"
  using assms
  by (auto simp: reflect_options_def Let_def hypothetical_defender_def split: if_splits)

lemma defend_options_Inr:
  "defend_options td sv = Inr d \<Longrightarrow> x \<in> set d \<Longrightarrow> x = (Defend, sv)"
  by (auto simp: defend_options_def Let_def ebind_Inr_iff split: if_splits)

lemma identities_loop_Inr:
  "identities_loop h g td svs acc = Inr res \<Longrightarrow>
     (\<forall>sv \<in> set svs. \<exists>r. reflect_options h g td sv = Inr r)
     \<and> set (fst res) = set (fst acc)
          \<union> {x. \<exists>sv \<in> set svs. \<exists>r. reflect_options h g td sv = Inr r \<and> x \<in> set r}
     \<and> set (snd res) \<subseteq> set (snd acc) \<union> {(Defend, sv) | sv. sv \<in> set svs}"
proof (induction svs arbitrary: acc)
  case Nil
  then show ?case by auto
next
  case (Cons sv svs)
  from Cons.prems obtain r d where r: "reflect_options h g td sv = Inr r"
    and d: "defend_options td sv = Inr d"
    and rest: "identities_loop h g td svs (fst acc @ r, snd acc @ d) = Inr res"
    by (auto simp: ebind_Inr_iff)
  from Cons.IH[OF rest] r defend_options_Inr[OF d] show ?case
    by auto
qed

lemma defend_loop_keys:
  "defend_loop h g td hnd cs opts = Inr res \<Longrightarrow>
     (\<forall>k sv. k \<noteq> Defend \<longrightarrow>
        (has_key (k, sv) res \<longleftrightarrow>
           has_key (k, sv) opts
           \<or> (\<exists>c \<in> set cs. \<exists>sv' \<in> set (identities h g hnd c). \<exists>r.
                 reflect_options h g td sv' = Inr r \<and> (k, sv) \<in> set r)))"
proof (induction cs arbitrary: opts)
  case Nil
  then show ?case by auto
next
  case (Cons c cs)
  from Cons.prems obtain R D where
    il: "identities_loop h g td (identities h g hnd c) ([], []) = Inr (R, D)"
    and rest: "defend_loop h g td hnd cs (add_options R (add_options D opts)) = Inr res"
    by (auto simp: ebind_Inr_iff)
  from identities_loop_Inr[OF il]
  have R: "set R = {x. \<exists>sv \<in> set (identities h g hnd c). \<exists>r.
                     reflect_options h g td sv = Inr r \<and> x \<in> set r}"
    and D: "set D \<subseteq> {(Defend, sv) | sv. sv \<in> set (identities h g hnd c)}"
    by auto
  show ?case
  proof (intro allI impI)
    fix k sv assume k: "k \<noteq> Defend"
    from D k have nD: "(k, sv) \<notin> set D" by auto
    have "has_key (k, sv) (add_options R (add_options D opts))
          \<longleftrightarrow> (k, sv) \<in> set R \<or> has_key (k, sv) opts"
      using nD by (simp add: keys_add_options)
    moreover from Cons.IH[OF rest, rule_format, OF k, of sv]
    have "has_key (k, sv) res \<longleftrightarrow>
           has_key (k, sv) (add_options R (add_options D opts))
           \<or> (\<exists>c \<in> set cs. \<exists>sv' \<in> set (identities h g hnd c). \<exists>r.
                 reflect_options h g td sv' = Inr r \<and> (k, sv) \<in> set r)" .
    moreover have "(k, sv) \<in> set R \<longleftrightarrow>
        (\<exists>sv' \<in> set (identities h g hnd c). \<exists>r.
                 reflect_options h g td sv' = Inr r \<and> (k, sv) \<in> set r)"
      unfolding R by simp
    ultimately
    show "has_key (k, sv) res \<longleftrightarrow>
           has_key (k, sv) opts
           \<or> (\<exists>c \<in> set (c # cs). \<exists>sv' \<in> set (identities h g hnd c). \<exists>r.
                 reflect_options h g td sv' = Inr r \<and> (k, sv) \<in> set r)"
      by auto
  qed
qed

lemma defend_loop_total_reflect:
  "defend_loop h g td hnd cs opts = Inr res \<Longrightarrow> c \<in> set cs \<Longrightarrow>
     sv \<in> set (identities h g hnd c) \<Longrightarrow> \<exists>r. reflect_options h g td sv = Inr r"
proof (induction cs arbitrary: opts)
  case Nil
  then show ?case by simp
next
  case (Cons c' cs)
  from Cons.prems(1) obtain R D where
    il: "identities_loop h g td (identities h g hnd c') ([], []) = Inr (R, D)"
    and rest: "defend_loop h g td hnd cs (add_options R (add_options D opts)) = Inr res"
    by (auto simp: ebind_Inr_iff)
  show ?case
  proof (cases "c = c'")
    case True
    with identities_loop_Inr[OF il] Cons.prems(3) show ?thesis by auto
  next
    case False
    with Cons.prems(2) have "c \<in> set cs" by simp
    from Cons.IH[OF rest this Cons.prems(3)] show ?thesis .
  qed
qed

lemma allowed_plays_Defend:
  "current_action g = Defend \<Longrightarrow> allowed_plays h g = Inr acts \<Longrightarrow> allowed_defend h g = Inr acts"
  by (auto simp: allowed_plays_def ebind_Inr_iff split: if_splits)

text \<open>
  What the defend branch guarantees, in the terms of the code: the trump suit it compares
  with is the \<^verbatim>\<open>trump_suit\<close> field of \<^verbatim>\<open>cards_to_defend[0]\<close>. A \<^verbatim>\<open>Reflect(s, v)\<close> is returned only when
  \<^verbatim>\<open>pairs_finished\<close> is empty, \<open>v\<close> is the value of that card and the hand of
  \<^verbatim>\<open>attackers[1 % len(attackers)]\<close> has at least \<^verbatim>\<open>len(cards_to_defend) + 1\<close> cards; a
  \<^verbatim>\<open>ReflectTrump(s, v)\<close> only when \<^verbatim>\<open>pairs_finished\<close> is empty, \<open>v\<close> is that value, \<open>s\<close> is that field,
  \<open>(s, v)\<close> is not in \<^verbatim>\<open>reflected_trumps\<close> and that hand has at least \<^verbatim>\<open>len(cards_to_defend)\<close>
  cards; and every candidate identity of a hand card that meets these conditions yields
  the action.
\<close>

theorem defend_phase_reflects:
  assumes "allowed_plays h g = Inr acts" and "current_action g = Defend"
  shows "(\<forall>pl w. (Reflect, pl, w) \<in> set acts \<longrightarrow>
           (\<exists>s v. pl = OneCard (s, v) \<and> pairs_finished g = [] \<and> v = val (to_defend h g)
              \<and> length (cards_to_defend g) + 1 \<le> length (hand_of h (hypothetical_defender g))))
       \<and> (\<forall>pl w. (ReflectTrump, pl, w) \<in> set acts \<longrightarrow>
           (\<exists>s v. pl = OneCard (s, v) \<and> pairs_finished g = [] \<and> v = val (to_defend h g)
              \<and> s = trump_suit (to_defend h g) \<and> (s, v) \<notin> set (reflected_trumps g)
              \<and> length (cards_to_defend g) \<le> length (hand_of h (hypothetical_defender g))))
       \<and> (\<forall>p c s v. player_to_play g = Some p \<and> c \<in> set (hand_of h p)
              \<and> (s, v) \<in> set (identities h g (hand_of h p) c)
              \<and> pairs_finished g = [] \<and> v = val (to_defend h g) \<longrightarrow>
            (length (cards_to_defend g) + 1 \<le> length (hand_of h (hypothetical_defender g)) \<longrightarrow>
               (\<exists>w. (Reflect, OneCard (s, v), w) \<in> set acts))
            \<and> (s = trump_suit (to_defend h g) \<and> (s, v) \<notin> set (reflected_trumps g)
                \<and> length (cards_to_defend g) \<le> length (hand_of h (hypothetical_defender g)) \<longrightarrow>
               (\<exists>w. (ReflectTrump, OneCard (s, v), w) \<in> set acts)))"
proof -
  from assms have ad: "allowed_defend h g = Inr acts" by (simp add: allowed_plays_Defend)
  then obtain c0 rest p where ctd: "cards_to_defend g = c0 # rest" and p: "player_to_play g = Some p"
    by (auto simp: allowed_defend_def split: list.splits option.splits)
  have td: "to_defend h g = cardH h c0" by (simp add: to_defend_def ctd)
  from ad ctd p obtain res where
    dl: "defend_loop h g (cardH h c0) (hand_of h p) (hand_of h p) [] = Inr res"
    and acts: "acts = map (\<lambda>((k, sv), w). (k, OneCard sv, Some w)) res
                      @ [(Take, NoCard, Some (1 / 2))]"
    by (auto simp: allowed_defend_def Let_def ebind_Inr_iff)
  have mem: "(k, pl, w) \<in> set acts \<longleftrightarrow>
               (\<exists>sv w'. pl = OneCard sv \<and> w = Some w' \<and> ((k, sv), w') \<in> set res)"
    if "k \<noteq> Take" for k pl w
    using that unfolding acts by force
  have keys: "has_key (k, sv) res \<longleftrightarrow>
       (\<exists>c \<in> set (hand_of h p). \<exists>sv' \<in> set (identities h g (hand_of h p) c). \<exists>r.
           reflect_options h g (cardH h c0) sv' = Inr r \<and> (k, sv) \<in> set r)"
    if "k \<noteq> Defend" for k sv
    using defend_loop_keys[OF dl, rule_format, OF that, of sv] by simp
  show ?thesis
  proof (intro conjI allI impI)
    fix pl w assume "(Reflect, pl, w) \<in> set acts"
    then obtain sv w' where sv: "pl = OneCard sv" "((Reflect, sv), w') \<in> set res"
      by (auto simp: mem)
    then have "has_key (Reflect, sv) res" by (auto simp: has_key_def)
    then obtain sv' r where "reflect_options h g (cardH h c0) sv' = Inr r" "(Reflect, sv) \<in> set r"
      by (auto simp: keys)
    then show "\<exists>s v. pl = OneCard (s, v) \<and> pairs_finished g = [] \<and> v = val (to_defend h g)
              \<and> length (cards_to_defend g) + 1 \<le> length (hand_of h (hypothetical_defender g))"
      using sv(1) by (cases sv) (auto simp: reflect_options_Inr td)
  next
    fix pl w assume "(ReflectTrump, pl, w) \<in> set acts"
    then obtain sv w' where sv: "pl = OneCard sv" "((ReflectTrump, sv), w') \<in> set res"
      by (auto simp: mem)
    then have "has_key (ReflectTrump, sv) res" by (auto simp: has_key_def)
    then obtain sv' r where "reflect_options h g (cardH h c0) sv' = Inr r"
      "(ReflectTrump, sv) \<in> set r"
      by (auto simp: keys)
    then show "\<exists>s v. pl = OneCard (s, v) \<and> pairs_finished g = [] \<and> v = val (to_defend h g)
              \<and> s = trump_suit (to_defend h g) \<and> (s, v) \<notin> set (reflected_trumps g)
              \<and> length (cards_to_defend g) \<le> length (hand_of h (hypothetical_defender g))"
      using sv(1) by (cases sv) (auto simp: reflect_options_Inr td)
  next
    fix q c s v
    assume a: "player_to_play g = Some q \<and> c \<in> set (hand_of h q)
              \<and> (s, v) \<in> set (identities h g (hand_of h q) c)
              \<and> pairs_finished g = [] \<and> v = val (to_defend h g)"
      and len: "length (cards_to_defend g) + 1 \<le> length (hand_of h (hypothetical_defender g))"
    with p have q: "q = p" by simp
    from a q defend_loop_total_reflect[OF dl, of c "(s, v)"]
    obtain r where r: "reflect_options h g (cardH h c0) (s, v) = Inr r" by auto
    from len a r have "(Reflect, (s, v)) \<in> set r" by (auto simp: reflect_options_Inr td)
    with a q r have "has_key (Reflect, (s, v)) res" by (subst keys) auto
    then obtain w' where "((Reflect, (s, v)), w') \<in> set res" by (auto simp: has_key_def)
    then have "(Reflect, OneCard (s, v), Some w') \<in> set acts" by (subst mem) auto
    then show "\<exists>w. (Reflect, OneCard (s, v), w) \<in> set acts" by blast
  next
    fix q c s v
    assume a: "player_to_play g = Some q \<and> c \<in> set (hand_of h q)
              \<and> (s, v) \<in> set (identities h g (hand_of h q) c)
              \<and> pairs_finished g = [] \<and> v = val (to_defend h g)"
      and tr: "s = trump_suit (to_defend h g) \<and> (s, v) \<notin> set (reflected_trumps g)
                \<and> length (cards_to_defend g) \<le> length (hand_of h (hypothetical_defender g))"
    with p have q: "q = p" by simp
    from a q defend_loop_total_reflect[OF dl, of c "(s, v)"]
    obtain r where r: "reflect_options h g (cardH h c0) (s, v) = Inr r" by auto
    from tr a r have "(ReflectTrump, (s, v)) \<in> set r" by (auto simp: reflect_options_Inr td)
    with a q r have "has_key (ReflectTrump, (s, v)) res" by (subst keys) auto
    then obtain w' where "((ReflectTrump, (s, v)), w') \<in> set res" by (auto simp: has_key_def)
    then have "(ReflectTrump, OneCard (s, v), Some w') \<in> set acts" by (subst mem) auto
    then show "\<exists>w. (ReflectTrump, OneCard (s, v), w) \<in> set acts" by blast
  qed
qed

lemma defend_example:
  "allowed_plays defend_heap defend_game
     = Inr [(Reflect, OneCard (Some 2, Some 3), Some 1),
            (Defend, OneCard (Some 0, Some 3), Some 1),
            (Reflect, OneCard (Some 0, Some 3), Some (1 / 2)),
            (ReflectTrump, OneCard (Some 0, Some 3), Some (1 / 2)),
            (Take, NoCard, Some (1 / 2))]"
  by (simp add: allowed_plays_def allowed_defend_def defend_heap_def defend_game_def
      example_simps identities_def reflect_options_def defend_options_def add_options_def
      is_trump_def py_gt_def ebind_def Let_def)

theorem defend_phase_reflects_witness:
  "allowed_plays defend_heap defend_game
     = Inr [(Reflect, OneCard (Some 2, Some 3), Some 1),
            (Defend, OneCard (Some 0, Some 3), Some 1),
            (Reflect, OneCard (Some 0, Some 3), Some (1 / 2)),
            (ReflectTrump, OneCard (Some 0, Some 3), Some (1 / 2)),
            (Take, NoCard, Some (1 / 2))]
   \<and> current_action defend_game = Defend
   \<and> pairs_finished defend_game = []
   \<and> val (to_defend defend_heap defend_game) = Some 3
   \<and> trump_suit (to_defend defend_heap defend_game) = Some 0
   \<and> length (cards_to_defend defend_game) + 1
        \<le> length (hand_of defend_heap (hypothetical_defender defend_game))"
proof -
  have c: "current_action defend_game = Defend"
    by (simp add: defend_game_def blank_game_def)
  from defend_phase_reflects[OF defend_example c] defend_example c
  show ?thesis
    by (auto simp: to_defend_def defend_heap_def defend_game_def example_simps)
qed

section \<open>Hands, discarding and throwing\<close>

lemma draw_eq: "draw n hnd dk = (hnd @ take n dk, drop n dk)"
  by (induction n hnd dk rule: draw.induct) auto

lemma fill_hand_eq:
  "fill_hand h p dk =
     (set_hand h p (hand_of h p @ take (6 - length (hand_of h p)) dk),
      drop (6 - length (hand_of h p)) dk)"
  by (simp add: fill_hand_def draw_eq)

lemma hand_of_set_hand [simp]:
  "hand_of (set_hand h p cs) q = (if q = p then cs else hand_of h q)"
  by (simp add: hand_of_def set_hand_def)

lemma cardH_set_hand [simp]: "cardH (set_hand h p cs) = cardH h"
  by (simp add: set_hand_def)

lemma name_set_hand [simp]: "name (playerH (set_hand h p cs) q) = name (playerH h q)"
  by (simp add: set_hand_def)

lemma next_set_hand [simp]:
  "next_card (set_hand h p cs) = next_card h" "next_player (set_hand h p cs) = next_player h"
  by (simp_all add: set_hand_def)

lemma hand_of_upd_card [simp]: "hand_of (upd_card h c f) q = hand_of h q"
  by (simp add: hand_of_def upd_card_def)

lemma playerH_upd_card [simp]: "playerH (upd_card h c f) = playerH h"
  by (simp add: upd_card_def)

lemma cardH_upd_card [simp]: "cardH (upd_card h c f) a = (if a = c then f (cardH h c) else cardH h a)"
  by (simp add: upd_card_def)

lemma next_upd_card [simp]:
  "next_card (upd_card h c f) = next_card h" "next_player (upd_card h c f) = next_player h"
  by (simp_all add: upd_card_def)

lemma hands_upd_card [simp]: "hands (upd_card h c f) ps = hands h ps"
  by (induction ps) (simp_all add: hands_def)






lemma pop_at_length [simp]: "i < length xs \<Longrightarrow> length (pop_at i xs) = length xs - 1"
  by (simp add: pop_at_def)






lemma known_hand_iff:
  "sv \<in> set (known_hand h hnd) \<longleftrightarrow> (\<exists>c \<in> set hnd. \<not> unknown_at h c \<and> ident_at h c = sv)"
  by (auto simp: known_hand_def)


lemma fits_unknown:
  "unknown_at h c \<Longrightarrow> fits h np hnd sv c \<longleftrightarrow> sv \<in> set np \<and> sv \<notin> set (known_hand h hnd)"
  by (simp add: fits_def)


lemma possible_card_plays_loop_iff:
  "sv \<in> set (possible_card_plays_loop h np cs acc) \<longleftrightarrow>
     sv \<in> set acc \<or> (\<exists>c \<in> set cs. if unknown_at h c then sv \<in> set np else ident_at h c = sv)"
  by (induction cs arbitrary: acc) auto

lemma possible_card_plays_iff:
  "sv \<in> set (possible_card_plays h p np) \<longleftrightarrow>
     (\<exists>c \<in> set (hand_of h p). if unknown_at h c then sv \<in> set np else ident_at h c = sv)"
  by (simp add: possible_card_plays_def possible_card_plays_loop_iff)








lemma discarded_known [simp]: "\<not> is_unknown (discarded h sv a)"
  by (simp add: discarded_def publish_def)













lemma discard_card_game:
  "card_collection g' = card_collection g \<Longrightarrow> all_cards g' = all_cards g \<Longrightarrow>
     discard_card h g' = discard_card h g"
  by (intro ext) (simp add: discard_card_def get_non_public_cards_def)











section \<open>Executing an allowed action\<close>

lemma discard_card_history [simp]:
  "discard_card h (g\<lparr>history := x\<rparr>) = discard_card h g"
  by (rule discard_card_game) simp_all

lemma discard_card_ctd [simp]:
  "discard_card h (g\<lparr>cards_to_defend := x\<rparr>) = discard_card h g"
  by (rule discard_card_game) simp_all

lemma execute_Attack:
  "execute_action h g (Attack, pl, w) =
     ebind (one_card pl) (\<lambda>sv.
     ebind (the_player (player_to_play g)) (\<lambda>p.
     ebind (discard_card h g p sv True) (\<lambda>(h', c).
     Inr (h', g\<lparr>history := history g @ [(Attack, pl, w)],
               last_played_attacker := player_to_play g,
               player_to_play := defender g,
               current_action := Defend,
               cards_to_defend := cards_to_defend g @ [c]\<rparr>))))"
  by (simp add: execute_action_def Let_def)






lemma execute_PassAttack:
  "execute_action h g (PassAttack, pl, w) =
     ebind (next_attacker (g\<lparr>history := history g @ [(PassAttack, pl, w)]\<rparr>)) (\<lambda>g2.
     if player_to_play g2 = last_played_attacker g2 then close_defence h g2 else Inr (h, g2))"
  by (simp add: execute_action_def Let_def close_defence_def cong: if_cong)












lemma flatten_pairs_snoc [simp]: "flatten_pairs (prs @ [(a, b)]) = flatten_pairs prs @ [a, b]"
  by (simp add: flatten_pairs_def)












lemma non_public_history [simp]:
  "get_non_public_cards h (g\<lparr>history := x\<rparr>) = get_non_public_cards h g"
  by (simp add: get_non_public_cards_def)



section \<open>The states of a game are well-formed\<close>




lemma str_card_trump [simp]: "str_card (x\<lparr>trump_suit := t\<rparr>) = str_card x"
  by (simp add: str_card_def)



lemma hands_empty: "\<forall>p. hand_of h p = [] \<Longrightarrow> hands h ps = []"
  by (simp add: hands_def)

















lemma the_all_cards_iff:
  "(Some s, Some v) \<in> set the_all_cards \<longleftrightarrow> 0 \<le> s \<and> s < 4 \<and> 0 \<le> v \<and> v < 9"
proof -
  have "set the_all_cards = {(Some (int n), Some (int m)) | n m. n < 4 \<and> m < 9}"
    by (auto simp add: the_all_cards_def)
  then have "(Some s, Some v) \<in> set the_all_cards \<longleftrightarrow> (\<exists>n<4. \<exists>m<9. s = int n \<and> v = int m)"
    by auto
  also have "\<dots> \<longleftrightarrow> 0 \<le> s \<and> s < 4 \<and> 0 \<le> v \<and> v < 9"
  proof
    assume "\<exists>n<4. \<exists>m<9. s = int n \<and> v = int m"
    then show "0 \<le> s \<and> s < 4 \<and> 0 \<le> v \<and> v < 9" by auto
  next
    assume a: "0 \<le> s \<and> s < 4 \<and> 0 \<le> v \<and> v < 9"
    then have "nat s < 4 \<and> nat v < 9 \<and> s = int (nat s) \<and> v = int (nat v)" by linarith
    then show "\<exists>n<4. \<exists>m<9. s = int n \<and> v = int m" by blast
  qed
  finally show ?thesis .
qed

lemma discard_card_first:
  assumes "hand_of h p = c # cs" and "fits h (get_non_public_cards h g) (c # cs) sv c"
  shows "discard_card h g p sv True =
           Inr (upd_card
                  (set_hand (if unknown_at h c
                             then upd_card h c (\<lambda>x. x\<lparr>suit := fst sv, val := snd sv\<rparr>) else h) p cs)
                  c (\<lambda>x. x\<lparr>is_unknown := False, is_private := False, is_public := True\<rparr>), c)"
  using assms
  by (simp add: discard_card_def Let_def pop_at_def cong: if_cong)


lemma attack_allowed:
  assumes "current_action g = Attack" and "current_attacker g < length (attackers g)"
    and "player_to_play g = Some (attackers g ! current_attacker g)"
    and "defender g = Some d" and "hand_of h d \<noteq> []" and "pairs_finished g = []"
    and "sv \<in> set (possible_card_plays h (attackers g ! current_attacker g)
                      (get_non_public_cards h g))"
  shows "\<exists>acts. allowed_plays h g = Inr acts \<and> (Attack, OneCard sv, None) \<in> set acts"
proof -
  define pp where "pp = possible_card_plays h (attackers g ! current_attacker g)
                      (get_non_public_cards h g)"
  have "allowed_attack h g = Inr (map (\<lambda>sv. (Attack, OneCard sv, None)) pp)"
    using assms(2-6) by (simp add: allowed_attack_def Let_def pp_def)
  moreover have "pp \<noteq> []" using assms(7) by (auto simp add: pp_def)
  ultimately have "allowed_plays h g = Inr (map (\<lambda>sv. (Attack, OneCard sv, None)) pp)"
    using assms(1) by (simp add: allowed_plays_def ebind_def)
  then show ?thesis using assms(7) by (auto simp add: pp_def)
qed














lemma non_public_eval:
  "filter (\<lambda>c. is_public (cardH h c)) (card_collection g) = pubs \<Longrightarrow>
     sv \<in> set (get_non_public_cards h g) \<longleftrightarrow>
       sv \<in> set (all_cards g) \<and> sv \<notin> set (map (ident_at h) pubs)"
  by (auto simp add: get_non_public_cards_def)













section \<open>A rollout after the search has hidden the other hands\<close>

lemma search_allowed:
  "allowed_plays search_heap search_game
     = Inr [(PassAttack, NoCard, None), (Attack, OneCard (Some 0, Some 3), None)]"
  by (simp add: allowed_plays_def allowed_attack_def search_heap_def search_game_def
      example_simps possible_card_plays_def pair_values_def ebind_def Let_def)

lemma search_hidden:
  "reset_private search_heap search_game (hand_of search_heap 0) = hidden_heap"
  by (simp add: reset_private_def card_in_def search_heap_def search_game_def hidden_heap_def
      example_simps upd_card_def reset_def fun_eq_iff nth_Cons')

lemma hidden_allowed:
  "allowed_plays hidden_heap search_game
     = Inr [(PassAttack, NoCard, None), (Attack, OneCard (Some 0, Some 3), None)]"
  by (simp add: allowed_plays_def allowed_attack_def hidden_heap_def search_game_def
      example_simps possible_card_plays_def pair_values_def ebind_def Let_def)

lemma hidden_pass:
  "execute_action hidden_heap search_game (PassAttack, NoCard, None)
     = Inr (hidden_heap, second_game)"
  unfolding execute_PassAttack
  by (simp add: next_attacker_def close_defence_def new_trick_def living_def pop_at_def
      hidden_heap_def search_game_def second_game_def example_simps Let_def ebind_def
      the_player_def set_hand_def fill_hand_eq fun_eq_iff upt_rec nth_Cons')

lemma second_game_fields:
  "players second_game = [0, 1]" "deck second_game = []"
  "card_collection second_game = [0, 1, 2, 3, 4, 5, 6]" "all_cards second_game = the_all_cards"
  "history second_game = [(PassAttack, NoCard, None)]"
  "attackers second_game = [1]" "defender second_game = Some 0"
  "current_attacker second_game = 0" "player_to_play second_game = Some 1"
  "current_action second_game = Attack" "pairs_finished second_game = []"
  "cards_to_defend second_game = []"
  by (simp_all add: second_game_def search_game_def blank_game_def)

lemma hidden_heap_fields:
  "hand_of hidden_heap 0 = [3]" "hand_of hidden_heap 1 = [0, 1, 2]"
  "hand_of hidden_heap (Suc 0) = [0, 1, 2]"
  "unknown_at hidden_heap 0" "unknown_at hidden_heap 1" "unknown_at hidden_heap 2"
  "unknown_at hidden_heap (Suc 0)"
  by (simp_all add: hidden_heap_def example_simps)

lemma hidden_public:
  "filter (\<lambda>c. is_public (cardH hidden_heap c)) [0, 1, 2, 3, 4, 5, 6] = [4, 5, 6]"
  by (simp add: hidden_heap_def example_simps)

lemma hidden_non_public:
  "(Some 1, Some 3) \<in> set (get_non_public_cards hidden_heap second_game)"
proof -
  have "filter (\<lambda>c. is_public (cardH hidden_heap c)) (card_collection second_game) = [4, 5, 6]"
    by (simp only: second_game_fields hidden_public)
  from non_public_eval[OF this] show ?thesis
    by (simp add: the_all_cards_iff second_game_fields hidden_heap_def example_simps)
qed

lemma hidden_attack_allowed:
  "\<exists>acts. allowed_plays hidden_heap second_game = Inr acts
      \<and> (Attack, OneCard (Some 1, Some 3), None) \<in> set acts"
proof (rule attack_allowed[where d = 0])
  show "(Some 1, Some 3) \<in> set (possible_card_plays hidden_heap
           (attackers second_game ! current_attacker second_game)
           (get_non_public_cards hidden_heap second_game))"
    unfolding possible_card_plays_iff
    by (rule bexI[of _ 0]) (simp_all add: hidden_non_public second_game_fields hidden_heap_fields)
qed (simp_all add: second_game_fields hidden_heap_fields del: One_nat_def)

lemma hidden_attack:
  "execute_action hidden_heap second_game (Attack, OneCard (Some 1, Some 3), None)
     = Inr (under_attack_heap, under_attack_game)"
proof -
  have h: "hand_of hidden_heap 1 = 0 # [1, 2]"
    by (simp add: hidden_heap_fields)
  have u: "unknown_at hidden_heap 0"
    by (simp add: hidden_heap_fields)
  have f: "fits hidden_heap (get_non_public_cards hidden_heap second_game)
             (0 # [1, 2]) (Some 1, Some 3) 0"
    by (simp add: fits_unknown[OF u] hidden_non_public known_hand_iff hidden_heap_fields)
  have e: "upd_card (set_hand (upd_card hidden_heap 0 (\<lambda>x. x\<lparr>suit := Some 1, val := Some 3\<rparr>))
                       1 [1, 2])
             0 (\<lambda>x. x\<lparr>is_unknown := False, is_private := False, is_public := True\<rparr>)
           = under_attack_heap"
    by (simp add: under_attack_heap_def hidden_heap_def upd_card_def set_hand_def example_simps
        fun_eq_iff nth_Cons')
  show ?thesis
    unfolding execute_Attack
    by (simp add: one_card_def the_player_def discard_card_first[OF h f] u e ebind_def
        under_attack_game_def second_game_fields del: One_nat_def)
qed

lemma under_attack_allowed:
  "allowed_plays under_attack_heap under_attack_game
     = Inr [(Reflect, OneCard (Some 0, Some 3), Some 1), (Take, NoCard, Some (1 / 2))]"
  by (simp add: allowed_plays_def allowed_defend_def under_attack_heap_def under_attack_game_def
      second_game_def search_game_def
      example_simps identities_def reflect_options_def defend_options_def add_options_def
      is_trump_def py_gt_def ebind_def Let_def)

section \<open>Taking the cards\<close>








section \<open>Allowed actions can be executed\<close>



section \<open>The cards in play\<close>






section \<open>Reflecting with a trump\<close>

text \<open>
  C5 fails for \<^verbatim>\<open>ReflectTrump\<close> where the card under attack has been reset. \<^verbatim>\<open>allowed_plays\<close> reads
  the trump suit from the field \<^verbatim>\<open>trump_suit\<close> of \<^verbatim>\<open>cards_to_defend[0]\<close>; \<^verbatim>\<open>reset\<close> sets that field to
  \<^verbatim>\<open>None\<close> and neither \<^verbatim>\<open>from_suit_value\<close> nor \<^verbatim>\<open>discard_card\<close> writes it again. At the state
  \<^verbatim>\<open>search_game\<close> A has two actions, so a search player copies the state and resets B's private
  cards. In a rollout A passes, which closes the trick, and B attacks with (1, 3), which
  binds a reset card. A, the defender, holds (0, 3): no pair is finished, the value is the
  value under attack, the suit is the trump suit of the game, nothing has been reflected
  and B holds two cards against one to defend. \<^verbatim>\<open>allowed_plays\<close> returns \<^verbatim>\<open>Reflect\<close> and \<^verbatim>\<open>Take\<close>, and
  no \<^verbatim>\<open>ReflectTrump\<close>.
\<close>

theorem trump_reflect_lost_after_reset:
  "allowed_plays search_heap search_game
     = Inr [(PassAttack, NoCard, None), (Attack, OneCard (Some 0, Some 3), None)]
   \<and> reset_private search_heap search_game (hand_of search_heap 0) = hidden_heap
   \<and> allowed_plays hidden_heap search_game
     = Inr [(PassAttack, NoCard, None), (Attack, OneCard (Some 0, Some 3), None)]
   \<and> execute_action hidden_heap search_game (PassAttack, NoCard, None)
     = Inr (hidden_heap, second_game)
   \<and> (\<exists>acts. allowed_plays hidden_heap second_game = Inr acts
          \<and> (Attack, OneCard (Some 1, Some 3), None) \<in> set acts)
   \<and> execute_action hidden_heap second_game (Attack, OneCard (Some 1, Some 3), None)
     = Inr (under_attack_heap, under_attack_game)
   \<and> game_trump under_attack_heap under_attack_game = Some 0
   \<and> current_action under_attack_game = Defend
   \<and> player_to_play under_attack_game = Some 0
   \<and> hand_of under_attack_heap 0 = [3]
   \<and> identities under_attack_heap under_attack_game [3] 3 = [(Some 0, Some 3)]
   \<and> pairs_finished under_attack_game = []
   \<and> val (to_defend under_attack_heap under_attack_game) = Some 3
   \<and> reflected_trumps under_attack_game = []
   \<and> length (cards_to_defend under_attack_game) = 1
   \<and> length (hand_of under_attack_heap (hypothetical_defender under_attack_game)) = 2
   \<and> trump_suit (to_defend under_attack_heap under_attack_game) = None
   \<and> allowed_plays under_attack_heap under_attack_game
     = Inr [(Reflect, OneCard (Some 0, Some 3), Some 1), (Take, NoCard, Some (1 / 2))]"
proof -
  have "game_trump under_attack_heap under_attack_game = Some 0"
    "current_action under_attack_game = Defend"
    "player_to_play under_attack_game = Some 0"
    "hand_of under_attack_heap 0 = [3]"
    "identities under_attack_heap under_attack_game [3] 3 = [(Some 0, Some 3)]"
    "pairs_finished under_attack_game = []"
    "val (to_defend under_attack_heap under_attack_game) = Some 3"
    "reflected_trumps under_attack_game = []"
    "length (cards_to_defend under_attack_game) = 1"
    "length (hand_of under_attack_heap (hypothetical_defender under_attack_game)) = 2"
    "trump_suit (to_defend under_attack_heap under_attack_game) = None"
    by (simp_all add: game_trump_def to_defend_def hypothetical_defender_def identities_def
        under_attack_heap_def under_attack_game_def second_game_def search_game_def
        example_simps)
  with search_allowed search_hidden hidden_allowed hidden_pass hidden_attack_allowed
    hidden_attack under_attack_allowed
  show ?thesis by simp
qed

section \<open>The end of the throw phase\<close>



end
